theory Spec2Isabelle
  imports Complex_Main "HOL-Library.Char_ord" "HOL-Library.List_Lexorder"
    "HOL-Library.Product_Lexorder"
begin

section \<open>Org Health Analyzer: spans and layers (app.py)\<close>

text \<open>
  The script reads a workbook into named tables, derives for every employee the number of
  direct reports and the depth below a root (\<open>compute_metrics\<close>), and then computes the
  KPIs, the flagged subsets, the duplicate titles and the recommendations at top level.
  Uploading, charts and widgets are outside the model: the model starts from the three
  tables that \<open>pick\<close> resolves by name fragment (each \<open>None\<close> when no sheet name matches)
  and from the three numbers the sidebar widgets return.
\<close>

subsection \<open>Cells, text and the standardised copy\<close>

text \<open>
  A character is a Unicode code point below 256, and a string a list of them. Python's
  tables are written out for these code points: \<open>str.isspace\<close> (which \<open>strip\<close> and
  \<open>split\<close> use) holds for the ASCII white space and for U+0085 and U+00A0, and
  \<open>str.isdigit\<close> for the ten ASCII digits and for the superscripts U+00B2, U+00B3 and
  U+00B9, which \<open>int\<close> refuses.

  A cell of an identifier column is missing (pandas NaN), a text, or a whole number as the
  loader reads it. pandas gives a column a type: \<open>object\<close> when it holds a text,
  \<open>float64\<close> when it holds numbers and a missing value, \<open>int64\<close> when it holds numbers
  only. \<open>_standardize\<close> casts every object column with \<open>astype(str)\<close> and strips it, and
  lines 62-64 and 68-69 cast the identifier columns with \<open>astype(str)\<close>: a missing value
  becomes the string \<open>nan\<close>, and the number 1 becomes \<open>1\<close> in an \<open>int64\<close> or
  \<open>object\<close> column and \<open>1.0\<close> in a \<open>float64\<close> column. (Numbers of sixteen digits or more,
  which \<open>float64\<close> rounds or writes with an exponent, are not among the inputs here.)

  The tables have the columns the script reads without a test: \<open>EmployeeID\<close> in the
  employee table, \<open>EmployeeID\<close> and \<open>ManagerID\<close> in the edge table, and \<open>Name\<close> and
  \<open>TargetRule\<close> in the Principles table. \<open>Name\<close>, \<open>TargetRule\<close>, \<open>FullName\<close> and
  \<open>JobRole\<close> are text columns (of type \<open>object\<close>): a cell holds a text or is missing.
  An employee or edge table that lacks one of its identifier columns makes the script
  raise \<open>KeyError\<close> at line 62, 68 or 69; such tables are not among the inputs here.
\<close>

datatype cell = NaN | Str string | Number int

type_synonym text_cell = "string option"

definition is_space :: "char \<Rightarrow> bool" where
  "is_space c =
     (c \<in> set [CHR '' '', CHR 0x09, CHR 0x0A, CHR 0x0B, CHR 0x0C, CHR 0x0D,
                CHR 0x1C, CHR 0x1D, CHR 0x1E, CHR 0x1F, CHR 0x85, CHR 0xA0])"

definition strip :: "string \<Rightarrow> string" where
  "strip s = rev (dropWhile is_space (rev (dropWhile is_space s)))"

text \<open>\<open>str\<close> of a Python \<open>int\<close>.\<close>

definition digit_char :: "nat \<Rightarrow> char" where
  "digit_char d = char_of (48 + d)"

function nat_str :: "nat \<Rightarrow> string" where
  "nat_str n = (if n < 10 then [digit_char n] else nat_str (n div 10) @ [digit_char (n mod 10)])"
  by pat_completeness auto
termination
  by (relation "measure id") auto

declare nat_str.simps [simp del]

definition int_str :: "int \<Rightarrow> string" where
  "int_str i = (if i < 0 then CHR ''-'' # nat_str (nat (- i)) else nat_str (nat i))"

text \<open>
  \<open>astype(str)\<close> on a cell of an \<open>object\<close> or \<open>int64\<close> column, on a cell of a
  \<open>float64\<close> column, and on a cell of a text column.
\<close>

definition plain_str :: "cell \<Rightarrow> string" where
  "plain_str c = (case c of NaN \<Rightarrow> ''nan'' | Str s \<Rightarrow> s | Number n \<Rightarrow> int_str n)"

definition float_str :: "cell \<Rightarrow> string" where
  "float_str c = (case c of NaN \<Rightarrow> ''nan'' | Str s \<Rightarrow> s | Number n \<Rightarrow> int_str n @ ''.0'')"

definition astype_str :: "text_cell \<Rightarrow> string" where
  "astype_str c = (case c of None \<Rightarrow> ''nan'' | Some s \<Rightarrow> s)"

definition standardize_cell :: "text_cell \<Rightarrow> string" where
  "standardize_cell c = strip (astype_str c)"

definition is_text :: "cell \<Rightarrow> bool" where
  "is_text c = (case c of Str _ \<Rightarrow> True | _ \<Rightarrow> False)"

text \<open>
  An identifier cell after \<open>_standardize\<close> and the cast of lines 62-64 or 68-69, given
  the whole column it stands in.
\<close>

definition id_text :: "cell list \<Rightarrow> cell \<Rightarrow> string" where
  "id_text column c =
     (if list_ex is_text column then strip (plain_str c)
      else if NaN \<in> set column then float_str c
      else plain_str c)"

record raw_employee =
  raw_EmployeeID :: cell
  raw_FullName :: text_cell
  raw_JobRole :: text_cell
  raw_ManagerID :: cell

record employee =
  EmployeeID :: string
  FullName :: string
  JobRole :: string
  ManagerID :: string

text \<open>
  A table of employees: its rows, and which of the optional columns it has. The cells of a
  column the table does not have are never read.
\<close>

record 'r employees_table =
  employee_rows :: "'r list"
  has_FullName :: bool
  has_JobRole :: bool
  has_ManagerID :: bool

record raw_edge =
  raw_edge_EmployeeID :: cell
  raw_edge_ManagerID :: cell

record edge =
  edge_EmployeeID :: string
  edge_ManagerID :: string

record raw_principle =
  raw_Name :: text_cell
  raw_TargetRule :: text_cell

record principle =
  Name :: string
  TargetRule :: string

record sheets =
  employees_sheet :: "raw_employee employees_table option"
  orgedges_sheet :: "raw_edge list option"
  principles_sheet :: "raw_principle list option"

definition standardize_employee :: "raw_employee list \<Rightarrow> raw_employee \<Rightarrow> employee" where
  "standardize_employee rows r =
     \<lparr>EmployeeID = id_text (map raw_EmployeeID rows) (raw_EmployeeID r),
      FullName = standardize_cell (raw_FullName r),
      JobRole = standardize_cell (raw_JobRole r),
      ManagerID = id_text (map raw_ManagerID rows) (raw_ManagerID r)\<rparr>"

definition standardize_employees ::
  "raw_employee employees_table \<Rightarrow> employee employees_table" where
  "standardize_employees t =
     \<lparr>employee_rows = map (standardize_employee (employee_rows t)) (employee_rows t),
      has_FullName = has_FullName t,
      has_JobRole = has_JobRole t,
      has_ManagerID = has_ManagerID t\<rparr>"

definition standardize_edge :: "raw_edge list \<Rightarrow> raw_edge \<Rightarrow> edge" where
  "standardize_edge rows r =
     \<lparr>edge_EmployeeID = id_text (map raw_edge_EmployeeID rows) (raw_edge_EmployeeID r),
      edge_ManagerID = id_text (map raw_edge_ManagerID rows) (raw_edge_ManagerID r)\<rparr>"

definition standardize_edges :: "raw_edge list \<Rightarrow> edge list" where
  "standardize_edges rows = map (standardize_edge rows) rows"

definition standardize_principle :: "raw_principle \<Rightarrow> principle" where
  "standardize_principle r =
     \<lparr>Name = standardize_cell (raw_Name r),
      TargetRule = standardize_cell (raw_TargetRule r)\<rparr>"

subsection \<open>Direct reports (lines 66-80)\<close>

text \<open>
  \<open>groupby(key).count()\<close>: one group per key, with the number of rows that carry it,
  the groups in the order of their keys (strings by code point, pairs by their first part
  and then their second).
\<close>

fun count_add :: "'k \<Rightarrow> ('k \<times> nat) list \<Rightarrow> ('k \<times> nat) list" where
  "count_add k [] = [(k, 1)]"
| "count_add k ((k', n) # kvs) =
     (if k = k' then (k', Suc n) # kvs else (k', n) # count_add k kvs)"

definition groupby_count :: "('k :: linorder) list \<Rightarrow> ('k \<times> nat) list" where
  "groupby_count ks = sort_key fst (fold count_add ks [])"

text \<open>
  The reporting source is the edge table when there is one, the employee table otherwise;
  \<open>mgr_counts\<close> counts its rows by \<open>ManagerID\<close>.
\<close>

definition manager_column :: "employee employees_table \<Rightarrow> edge list option \<Rightarrow> string list" where
  "manager_column employees edges =
     (case edges of
        Some es \<Rightarrow> map edge_ManagerID es
      | None \<Rightarrow> map ManagerID (employee_rows employees))"

definition mgr_counts :: "employee employees_table \<Rightarrow> edge list option \<Rightarrow> (string \<times> nat) list" where
  "mgr_counts employees edges = groupby_count (manager_column employees edges)"

text \<open>
  The left merge on \<open>EmployeeID\<close> against the index of \<open>mgr_counts\<close>, then \<open>fillna(0)\<close>.
\<close>

definition direct_reports :: "(string \<times> nat) list \<Rightarrow> string \<Rightarrow> nat" where
  "direct_reports counts eid = (case map_of counts eid of None \<Rightarrow> 0 | Some n \<Rightarrow> n)"

record emp_row = employee +
  DirectReports :: nat
  IsManager :: bool
  Depth :: nat

subsection \<open>Depth by breadth-first traversal from the roots (lines 82-110)\<close>

text \<open>
  \<open>parent_of\<close> is a \<open>defaultdict(set)\<close> from a manager to the identifiers that report to it.
  The model keeps the keys and the members of each set in order of insertion; Python
  iterates a set in an order of its own, which no result below depends on.
\<close>

type_synonym parent_of = "(string \<times> string list) list"

definition set_add :: "'a \<Rightarrow> 'a list \<Rightarrow> 'a list" where
  "set_add x xs = (if x \<in> set xs then xs else xs @ [x])"

fun parent_of_add :: "string \<Rightarrow> string \<Rightarrow> parent_of \<Rightarrow> parent_of" where
  "parent_of_add m e [] = [(m, [e])]"
| "parent_of_add m e ((k, cs) # po) =
     (if k = m then (k, set_add e cs) # po else (k, cs) # parent_of_add m e po)"

text \<open>The loop over the rows: \<open>parent_of[r['ManagerID']].add(r['EmployeeID'])\<close>.\<close>

definition build_parent_of :: "(string \<times> string) list \<Rightarrow> parent_of" where
  "build_parent_of pairs = fold (\<lambda>(m, e). parent_of_add m e) pairs []"

text \<open>\<open>parent_of.get(cur, [])\<close>\<close>

definition parent_of_get :: "parent_of \<Rightarrow> string \<Rightarrow> string list" where
  "parent_of_get po cur = (case map_of po cur of None \<Rightarrow> [] | Some cs \<Rightarrow> cs)"

text \<open>
  The (manager, employee) pairs of the reporting source. In the employee table the script
  first calls \<open>dropna(subset=['ManagerID'])\<close>; the column has been cast to \<open>str\<close> before
  (line 64), so no value is missing any more and the call keeps every row.
\<close>

definition edge_pairs :: "edge list \<Rightarrow> (string \<times> string) list" where
  "edge_pairs es = map (\<lambda>r. (edge_ManagerID r, edge_EmployeeID r)) es"

definition employee_pairs :: "employee list \<Rightarrow> (string \<times> string) list" where
  "employee_pairs rows = map (\<lambda>r. (ManagerID r, EmployeeID r)) rows"

text \<open>\<open>Series.unique()\<close>: the distinct values in order of first appearance.\<close>

definition unique :: "'a list \<Rightarrow> 'a list" where
  "unique xs = fold set_add xs []"

text \<open>
  With an edge table: \<open>sorted(list(parents - children))\<close>. Without:
  the \<open>EmployeeID\<close> of every row whose \<open>ManagerID\<close> is no \<open>EmployeeID\<close> of the table.
\<close>

definition edge_roots :: "(string \<times> string) list \<Rightarrow> string list" where
  "edge_roots pairs =
     sort (unique (filter (\<lambda>p. p \<notin> set (map snd pairs)) (map fst pairs)))"

definition employee_roots :: "employee list \<Rightarrow> string list" where
  "employee_roots rows =
     unique (map EmployeeID
       (filter (\<lambda>r. ManagerID r \<notin> set (map EmployeeID rows)) rows))"

text \<open>
  The dictionary \<open>depth\<close>: a key is absent (\<open>None\<close>), present with the value \<open>None\<close>
  (\<open>Some None\<close>) or present with a number.
\<close>

type_synonym depth_dict = "string \<Rightarrow> nat option option"

definition init_depth :: "string list \<Rightarrow> depth_dict" where
  "init_depth ids = (\<lambda>k. if k \<in> set ids then Some None else None)"

text \<open>\<open>depth.get(k)\<close> and \<open>depth.get(k, 0) or 0\<close>\<close>

definition depth_get :: "depth_dict \<Rightarrow> string \<Rightarrow> nat option" where
  "depth_get d k = (case d k of None \<Rightarrow> None | Some v \<Rightarrow> v)"

definition depth_get_or0 :: "depth_dict \<Rightarrow> string \<Rightarrow> nat" where
  "depth_get_or0 d k = (case depth_get d k of None \<Rightarrow> 0 | Some n \<Rightarrow> n)"

text \<open>The inner \<open>for ch in parent_of.get(cur, [])\<close> loop (lines 103-106).\<close>

fun visit_children ::
  "string \<Rightarrow> string list \<Rightarrow> depth_dict \<Rightarrow> string list \<Rightarrow> depth_dict \<times> string list" where
  "visit_children cur [] d q = (d, q)"
| "visit_children cur (ch # chs) d q =
     (if depth_get d ch = None
      then visit_children cur chs (d(ch \<mapsto> Some (depth_get_or0 d cur + 1))) (q @ [ch])
      else visit_children cur chs d q)"

text \<open>
  What the termination of the \<open>while q\<close> loop rests on: every identifier appended to the
  queue has just lost its \<open>None\<close>, and only members of \<open>parent_of\<close> are appended.
\<close>

definition unassigned :: "parent_of \<Rightarrow> depth_dict \<Rightarrow> nat" where
  "unassigned po d = card {c \<in> set (concat (map snd po)). depth_get d c = None}"

lemma unassigned_assign:
  assumes "ch \<in> set (concat (map snd po))" "depth_get d ch = None"
  shows "Suc (unassigned po (d(ch \<mapsto> Some n))) = unassigned po d"
proof -
  let ?U = "set (concat (map snd po))"
  let ?A = "{c \<in> ?U. depth_get d c = None}"
  have eq: "{c \<in> ?U. depth_get (d(ch \<mapsto> Some n)) c = None} = ?A - {ch}"
    by (auto simp: depth_get_def)
  have "ch \<in> ?A" using assms by simp
  moreover have "finite ?A" by simp
  ultimately have "Suc (card (?A - {ch})) = card ?A"
    by (intro card_Suc_Diff1)
  then show ?thesis unfolding unassigned_def eq .
qed

lemma visit_children_measure:
  assumes "set chs \<subseteq> set (concat (map snd po))"
    and "visit_children cur chs d q = (d', q')"
  shows "2 * unassigned po d' + length q' \<le> 2 * unassigned po d + length q"
  using assms
proof (induction chs arbitrary: d q)
  case Nil
  then show ?case by simp
next
  case (Cons ch chs)
  from Cons.prems(1) have sub: "set chs \<subseteq> set (concat (map snd po))"
    and mem: "ch \<in> set (concat (map snd po))"
    by simp_all
  show ?case
  proof (cases "depth_get d ch = None")
    case True
    define d1 where "d1 = d(ch \<mapsto> Some (depth_get_or0 d cur + 1))"
    from Cons.prems(2) True have "visit_children cur chs d1 (q @ [ch]) = (d', q')"
      by (simp add: d1_def)
    from Cons.IH [OF sub this]
    have "2 * unassigned po d' + length q' \<le> 2 * unassigned po d1 + length q + 1"
      by simp
    moreover have "Suc (unassigned po d1) = unassigned po d"
      unfolding d1_def using mem True by (rule unassigned_assign)
    ultimately show ?thesis by linarith
  next
    case False
    with Cons.prems(2) have "visit_children cur chs d q = (d', q')" by simp
    from Cons.IH [OF sub this] show ?thesis .
  qed
qed

lemma parent_of_get_subset: "set (parent_of_get po cur) \<subseteq> set (concat (map snd po))"
proof
  fix c
  assume c: "c \<in> set (parent_of_get po cur)"
  show "c \<in> set (concat (map snd po))"
  proof (cases "map_of po cur")
    case None
    with c show ?thesis by (simp add: parent_of_get_def)
  next
    case (Some cs)
    then have "(cur, cs) \<in> set po" by (rule map_of_SomeD)
    moreover from c Some have "c \<in> set cs" by (simp add: parent_of_get_def)
    ultimately show ?thesis by force
  qed
qed

text \<open>The \<open>while q\<close> loop (lines 101-106): \<open>cur = q.popleft()\<close>, then the inner loop.\<close>

function bfs :: "parent_of \<Rightarrow> depth_dict \<Rightarrow> string list \<Rightarrow> depth_dict" where
  "bfs po d [] = d"
| "bfs po d (cur # q) =
     (case visit_children cur (parent_of_get po cur) d q of (d', q') \<Rightarrow> bfs po d' q')"
  by pat_completeness auto
termination
proof (relation "measure (\<lambda>(po, d, q). 2 * unassigned po d + length q)", goal_cases)
  case 1
  show ?case by simp
next
  case (2 po d cur q d' q')
  then have "visit_children cur (parent_of_get po cur) d q = (d', q')" by simp
  from visit_children_measure [OF parent_of_get_subset this]
  show ?case by simp
qed

text \<open>The loop over the roots (lines 97-106).\<close>

fun roots_loop :: "parent_of \<Rightarrow> string list \<Rightarrow> depth_dict \<Rightarrow> depth_dict" where
  "roots_loop po [] d = d"
| "roots_loop po (r # rs) d =
     roots_loop po rs (bfs po (if d r = Some None then d(r \<mapsto> Some 0) else d) [r])"

text \<open>Lines 107-109: every key that still has no depth gets depth 0.\<close>

definition fill_none :: "depth_dict \<Rightarrow> depth_dict" where
  "fill_none d = (\<lambda>k. if d k = Some None then Some (Some 0) else d k)"

definition assign_depths :: "string list \<Rightarrow> parent_of \<Rightarrow> string list \<Rightarrow> depth_dict" where
  "assign_depths ids po roots = fill_none (roots_loop po roots (init_depth ids))"

text \<open>Line 110: \<open>emp['EmployeeID'].map(depth).fillna(0).astype(int)\<close>\<close>

definition depth_column :: "depth_dict \<Rightarrow> string \<Rightarrow> nat" where
  "depth_column d eid = (case d eid of Some (Some n) \<Rightarrow> n | _ \<Rightarrow> 0)"

text \<open>The dictionary \<open>depth\<close> after line 109, for either reporting source.\<close>

definition depth_of :: "employee employees_table \<Rightarrow> edge list option \<Rightarrow> depth_dict" where
  "depth_of employees edges =
     (let ids = map EmployeeID (employee_rows employees) in
      case edges of
        Some es \<Rightarrow>
          assign_depths ids (build_parent_of (edge_pairs es)) (edge_roots (edge_pairs es))
      | None \<Rightarrow>
          assign_depths ids (build_parent_of (employee_pairs (employee_rows employees)))
            (employee_roots (employee_rows employees)))"

subsection \<open>Seeding the targets from the Principles table (lines 112-131)\<close>

text \<open>
  The session state of the interactive session: the flag that the seeding has run, and the
  three cached targets (\<open>None\<close> while a key has not been written).
\<close>

record session_state =
  prefilled_from_principles :: bool
  session_min_span :: "nat option"
  session_max_span :: "nat option"
  session_max_layers :: "nat option"

definition lower_char :: "char \<Rightarrow> char" where
  "lower_char c =
     (if of_char c \<ge> (65::nat) \<and> of_char c \<le> (90::nat) then char_of (of_char c + (32::nat)) else c)"

definition lower :: "string \<Rightarrow> string" where
  "lower s = map lower_char s"

fun starts_with :: "string \<Rightarrow> string \<Rightarrow> bool" where
  "starts_with [] s = True"
| "starts_with (p # ps) [] = False"
| "starts_with (p # ps) (c # cs) = (p = c \<and> starts_with ps cs)"

fun contains_str :: "string \<Rightarrow> string \<Rightarrow> bool" where
  "contains_str p [] = (p = [])"
| "contains_str p (c # cs) = (starts_with p (c # cs) \<or> contains_str p cs)"

text \<open>\<open>Series.str.contains(pat, case=False)\<close> for a pattern of plain letters.\<close>

definition str_contains_nocase :: "string \<Rightarrow> string \<Rightarrow> bool" where
  "str_contains_nocase pat s = contains_str (lower pat) (lower s)"

text \<open>\<open>s.split(c)\<close>: the pieces between the occurrences of \<open>c\<close>, never an empty list.\<close>

fun split_on :: "char \<Rightarrow> string \<Rightarrow> string list" where
  "split_on c [] = [[]]"
| "split_on c (x # xs) =
     (if x = c then [] # split_on c xs
      else (case split_on c xs of [] \<Rightarrow> [[x]] | w # ws \<Rightarrow> (x # w) # ws))"

text \<open>\<open>s.split()\<close>: the maximal runs of characters that are no white space.\<close>

fun split_ws_from :: "string \<Rightarrow> string \<Rightarrow> string list" where
  "split_ws_from cur [] = (if cur = [] then [] else [cur])"
| "split_ws_from cur (c # cs) =
     (if is_space c then (if cur = [] then split_ws_from [] cs else cur # split_ws_from [] cs)
      else split_ws_from (cur @ [c]) cs)"

definition split_ws :: "string \<Rightarrow> string list" where
  "split_ws s = split_ws_from [] s"

text \<open>
  \<open>str.isdigit\<close> on one character: the ten decimal digits, and the superscript two,
  three and one.
\<close>

definition is_decimal :: "char \<Rightarrow> bool" where
  "is_decimal c = (c \<in> set ''0123456789'')"

definition isdigit_char :: "char \<Rightarrow> bool" where
  "isdigit_char c = (is_decimal c \<or> c \<in> set [CHR 0xB2, CHR 0xB3, CHR 0xB9])"

text \<open>\<open>s.isdigit()\<close>: not empty, and digits only.\<close>

definition isdigit :: "string \<Rightarrow> bool" where
  "isdigit s = (s \<noteq> [] \<and> list_all isdigit_char s)"

definition digits_value :: "string \<Rightarrow> nat" where
  "digits_value ds = fold (\<lambda>c n. 10 * n + (of_char c - 48)) ds 0"

text \<open>
  \<open>int(s)\<close> on a string of \<open>isdigit\<close> characters. \<open>None\<close> is the \<open>ValueError\<close>: on the
  empty string, on a superscript digit, and on more than 4300 digits (the limit Python
  sets on the conversion).
\<close>

definition py_int :: "string \<Rightarrow> nat option" where
  "py_int ds =
     (if ds \<noteq> [] \<and> list_all is_decimal ds \<and> length ds \<le> 4300
      then Some (digits_value ds) else None)"

text \<open>
  \<open>principles[principles['Name'].str.contains(pat, case=False)].iloc[0]['TargetRule']\<close>;
  \<open>None\<close> is the \<open>IndexError\<close> when no row matches.
\<close>

definition first_rule :: "string \<Rightarrow> principle list \<Rightarrow> string option" where
  "first_rule pat ps =
     (case filter (\<lambda>p. str_contains_nocase pat (Name p)) ps of
        [] \<Rightarrow> None
      | p # _ \<Rightarrow> Some (TargetRule p))"

text \<open>
  The first \<open>try\<close> block (lines 114-123). Every exception ends the block and is dropped;
  what has been written to the session state before stays written.
\<close>

definition prefill_span :: "principle list \<Rightarrow> session_state \<Rightarrow> session_state" where
  "prefill_span ps st =
     (case first_rule ''Span'' ps of
        None \<Rightarrow> st
      | Some p_span \<Rightarrow>
          if CHR ''-'' \<in> set p_span then
            (case split_on CHR ''-'' p_span of
               left # snd_part # _ \<Rightarrow>
                 (case split_ws snd_part of
                    [] \<Rightarrow> st
                  | right # _ \<Rightarrow>
                      (case py_int (filter isdigit_char left) of
                         None \<Rightarrow> st
                       | Some lo \<Rightarrow>
                           (case py_int (filter isdigit_char right) of
                              None \<Rightarrow> st\<lparr>session_min_span := Some lo\<rparr>
                            | Some hi \<Rightarrow>
                                st\<lparr>session_min_span := Some lo, session_max_span := Some hi\<rparr>)))
             | _ \<Rightarrow> st)
          else st)"

text \<open>
  The second \<open>try\<close> block (lines 124-130). The list \<open>nums\<close> is built whole before its
  first member is read, so an \<open>int\<close> that raises on any word ends the block.
\<close>

definition prefill_layers :: "principle list \<Rightarrow> session_state \<Rightarrow> session_state" where
  "prefill_layers ps st =
     (case first_rule ''Layer'' ps of
        None \<Rightarrow> st
      | Some p_layers \<Rightarrow>
          (let nums = map py_int (filter isdigit (split_ws p_layers))
           in if None \<in> set nums then st
              else (case nums of
                      Some n # _ \<Rightarrow> st\<lparr>session_max_layers := Some n\<rparr>
                    | _ \<Rightarrow> st)))"

definition prefill :: "principle list option \<Rightarrow> session_state \<Rightarrow> session_state" where
  "prefill principles st =
     (case principles of
        None \<Rightarrow> st
      | Some ps \<Rightarrow>
          if prefilled_from_principles st then st
          else (prefill_layers ps (prefill_span ps st))\<lparr>prefilled_from_principles := True\<rparr>)"

subsection \<open>\<open>compute_metrics\<close> (lines 45-133)\<close>

text \<open>
  \<open>st.error\<close> followed by \<open>st.stop\<close> ends the run with a message to the user; an exception
  nothing catches ends it with a traceback.
\<close>

datatype halt = St_error_stop string | ValueError string | ZeroDivisionError

definition emp_of ::
  "(string \<times> nat) list \<Rightarrow> depth_dict \<Rightarrow> employee \<Rightarrow> emp_row" where
  "emp_of counts depth r =
     \<lparr>EmployeeID = EmployeeID r, FullName = FullName r, JobRole = JobRole r,
      ManagerID = ManagerID r,
      DirectReports = direct_reports counts (EmployeeID r),
      IsManager = (direct_reports counts (EmployeeID r) > 0),
      Depth = depth_column depth (EmployeeID r)\<rparr>"

definition compute_metrics ::
  "sheets \<Rightarrow> session_state \<Rightarrow>
   halt + ((emp_row list \<times> employee employees_table \<times> edge list option) \<times> session_state)" where
  "compute_metrics sh st =
     (case employees_sheet sh of
        None \<Rightarrow>
          Inl (St_error_stop ''No Employees sheet/table found. Include at least EmployeeID, FullName/Name, JobRole, ManagerID (or provide OrgEdges).'')
      | Some raw \<Rightarrow>
          let employees = standardize_employees raw;
              edges = map_option standardize_edges (orgedges_sheet sh);
              principles = map_option (map standardize_principle) (principles_sheet sh)
          in if edges = None \<and> \<not> has_ManagerID employees
             then Inl (St_error_stop ''No OrgEdges sheet and no ManagerID column in Employees.'')
             else
               let counts = mgr_counts employees edges;
                   depth = depth_of employees edges;
                   emp = map (emp_of counts depth) (employee_rows employees)
               in Inr ((emp, employees, edges), prefill principles st))"

subsection \<open>KPIs, flags, duplicate titles and recommendations (lines 143-225)\<close>

text \<open>The sidebar targets (lines 21-23), as the widgets return them.\<close>

record targets =
  min_span :: nat
  max_span :: nat
  max_layers_target :: nat

definition default_targets :: targets where
  "default_targets = \<lparr>min_span = 4, max_span = 12, max_layers_target = 6\<rparr>"

definition manager_df :: "emp_row list \<Rightarrow> emp_row list" where
  "manager_df emp = filter IsManager emp"

text \<open>Python's \<open>/\<close> on integers, with its exception; the quotient is taken in the reals.\<close>

definition py_truediv :: "nat \<Rightarrow> nat \<Rightarrow> halt + real" where
  "py_truediv a b = (if b = 0 then Inl ZeroDivisionError else Inr (real a / real b))"

text \<open>Line 147: \<open>(n_managers / n_people) if n_people else 0\<close>\<close>

definition manager_ratio :: "emp_row list \<Rightarrow> halt + real" where
  "manager_ratio emp =
     (let n_people = length emp; n_managers = length (manager_df emp)
      in if n_people \<noteq> 0 then py_truediv n_managers n_people else Inr 0)"

text \<open>
  Line 153: \<open>int(emp['Depth'].max())\<close>. The maximum of an empty column is NaN, and
  \<open>int\<close> of NaN raises \<open>ValueError\<close>.
\<close>

definition max_depth :: "emp_row list \<Rightarrow> halt + nat" where
  "max_depth emp =
     (case map Depth emp of
        [] \<Rightarrow> Inl (ValueError ''cannot convert float NaN to integer'')
      | d # ds \<Rightarrow> Inr (fold max ds d))"

definition below_min :: "targets \<Rightarrow> emp_row list \<Rightarrow> emp_row list" where
  "below_min t emp = filter (\<lambda>r. DirectReports r < min_span t) (manager_df emp)"

definition above_max :: "targets \<Rightarrow> emp_row list \<Rightarrow> emp_row list" where
  "above_max t emp = filter (\<lambda>r. DirectReports r > max_span t) (manager_df emp)"

definition single_report :: "emp_row list \<Rightarrow> emp_row list" where
  "single_report emp = filter (\<lambda>r. DirectReports r = 1) (manager_df emp)"

text \<open>
  Lines 161-167. \<open>child_roles\<close> is the left merge of the edge table with the
  (\<open>EmployeeID\<close>, \<open>JobRole\<close>) columns of the employee table: one row per matching employee
  row, and one row with a missing \<open>JobRole\<close> for an edge that matches none. \<open>groupby\<close>
  drops the rows whose key has a missing part.
\<close>

definition child_roles :: "edge list \<Rightarrow> employee list \<Rightarrow> (string \<times> string \<times> string option) list" where
  "child_roles es rows =
     concat (map (\<lambda>e.
       (case filter (\<lambda>r. EmployeeID r = edge_EmployeeID e) rows of
          [] \<Rightarrow> [(edge_EmployeeID e, edge_ManagerID e, None)]
        | ms \<Rightarrow> map (\<lambda>r. (edge_EmployeeID e, edge_ManagerID e, Some (JobRole r))) ms)) es)"

definition group_keys :: "(string \<times> string \<times> string option) list \<Rightarrow> (string \<times> string) list" where
  "group_keys crs =
     concat (map (\<lambda>(e, m, j). case j of None \<Rightarrow> [] | Some role \<Rightarrow> [(m, role)]) crs)"

record dup_title =
  dup_ManagerID :: string
  dup_JobRole :: string
  Count :: nat

text \<open>
  \<open>sort_values('Count', ascending=False)\<close>: pandas reverses the column, sorts it and
  reverses the result, which with a stable sort keeps groups of equal count in the order
  they had. The default sort of numpy is stable up to 16 groups; beyond that the order
  among equal counts is its own and is not fixed by the script.
\<close>

definition sort_count_desc :: "dup_title list \<Rightarrow> dup_title list" where
  "sort_count_desc gs = sort_key (\<lambda>g. - int (Count g)) gs"

definition dup_titles :: "employee employees_table \<Rightarrow> edge list option \<Rightarrow> dup_title list" where
  "dup_titles employees edges =
     (case edges of
        None \<Rightarrow> []
      | Some es \<Rightarrow>
          if has_JobRole employees then
            sort_count_desc
              (filter (\<lambda>g. Count g \<ge> 2)
                 (map (\<lambda>((m, role), n). \<lparr>dup_ManagerID = m, dup_JobRole = role, Count = n\<rparr>)
                    (groupby_count (group_keys (child_roles es (employee_rows employees))))))
          else [])"

text \<open>
  A recommendation is the text of one of four f-strings; the model keeps which one it is
  and the values it interpolates.
\<close>

datatype recommendation =
    Reduce_layers nat nat
  | Narrow_span string nat nat
  | Wide_span string nat nat
  | Duplicate_roles string nat string

text \<open>\<open>r.get('FullName', r['EmployeeID'])\<close>\<close>

definition display_name :: "bool \<Rightarrow> emp_row \<Rightarrow> string" where
  "display_name has_name r = (if has_name then FullName r else EmployeeID r)"

definition recs ::
  "targets \<Rightarrow> bool \<Rightarrow> nat \<Rightarrow> emp_row list \<Rightarrow> emp_row list \<Rightarrow> dup_title list \<Rightarrow>
   recommendation list" where
  "recs t has_name depth below_rows above_rows dups =
     (let recs0 = (if depth > max_layers_target t
                   then [] @ [Reduce_layers depth (max_layers_target t)] else []);
          recs1 = fold (\<lambda>r acc. acc @
                    [Narrow_span (display_name has_name r) (DirectReports r) (min_span t)])
                    below_rows recs0;
          recs2 = fold (\<lambda>r acc. acc @
                    [Wide_span (display_name has_name r) (DirectReports r) (max_span t)])
                    above_rows recs1
      in fold (\<lambda>g acc. acc @ [Duplicate_roles (dup_ManagerID g) (Count g) (dup_JobRole g)])
           (take 20 dups) recs2)"

record outputs =
  out_emp :: "emp_row list"
  n_people :: nat
  n_managers :: nat
  out_manager_ratio :: real
  out_max_depth :: nat
  out_below_min :: "emp_row list"
  out_above_max :: "emp_row list"
  out_single_report :: "emp_row list"
  out_dup_titles :: "dup_title list"
  out_recs :: "recommendation list"
  shown_recs :: "recommendation list"

text \<open>
  Lines 199, 201 and 205 show the flagged rows with the columns \<open>EmployeeID\<close>,
  \<open>FullName\<close> (or \<open>EmployeeID\<close> once more when the table has no \<open>FullName\<close>),
  \<open>JobRole\<close> (or \<open>IsManager\<close>) and \<open>DirectReports\<close>. \<open>st.dataframe\<close> refuses a table
  in which a column name occurs twice, so without a \<open>FullName\<close> column line 199 raises
  \<open>ValueError\<close>.
\<close>

definition show_flagged :: "employee employees_table \<Rightarrow> halt + unit" where
  "show_flagged employees_table =
     (if has_FullName employees_table then Inr ()
      else Inl (ValueError ''Duplicate column names found''))"

text \<open>
  The script from line 140 on, for an uploaded workbook. The mean, median, minimum and
  maximum span (lines 149-152) only feed the dashboard and cannot raise; they are left out.
\<close>

definition pipeline :: "sheets \<Rightarrow> targets \<Rightarrow> session_state \<Rightarrow> halt + (outputs \<times> session_state)" where
  "pipeline sh t st =
     (case compute_metrics sh st of
        Inl h \<Rightarrow> Inl h
      | Inr ((emp, employees_table, edges_table), st') \<Rightarrow>
          (case manager_ratio emp of
             Inl h \<Rightarrow> Inl h
           | Inr ratio \<Rightarrow>
               (case max_depth emp of
                  Inl h \<Rightarrow> Inl h
                | Inr depth \<Rightarrow>
                    let below_rows = below_min t emp;
                        above_rows = above_max t emp;
                        dups = dup_titles employees_table edges_table
                    in (case show_flagged employees_table of
                          Inl h \<Rightarrow> Inl h
                        | Inr _ \<Rightarrow>
                            let rs = recs t (has_FullName employees_table) depth
                                       below_rows above_rows dups
                            in Inr (\<lparr>out_emp = emp,
                                     n_people = length emp,
                                     n_managers = length (manager_df emp),
                                     out_manager_ratio = ratio,
                                     out_max_depth = depth,
                                     out_below_min = below_rows,
                                     out_above_max = above_rows,
                                     out_single_report = single_report emp,
                                     out_dup_titles = dups,
                                     out_recs = rs,
                                     shown_recs = take 50 rs\<rparr>, st')))))"

subsection \<open>Vocabulary of the properties\<close>

text \<open>Which of the four rules a recommendation comes from, in the order of lines 211-220.\<close>

definition rec_rank :: "recommendation \<Rightarrow> nat" where
  "rec_rank r =
     (case r of
        Reduce_layers _ _ \<Rightarrow> 0
      | Narrow_span _ _ _ \<Rightarrow> 1
      | Wide_span _ _ _ \<Rightarrow> 2
      | Duplicate_roles _ _ _ \<Rightarrow> 3)"

definition dup_key :: "dup_title \<Rightarrow> string \<times> string" where
  "dup_key g = (dup_ManagerID g, dup_JobRole g)"




text \<open>
  A list of (manager, employee) pairs is a forest when no employee has two managers and no
  chain of reporting lines comes back to where it started.
\<close>

definition one_parent :: "(string \<times> string) set \<Rightarrow> bool" where
  "one_parent E \<longleftrightarrow> (\<forall>p p' c. (p, c) \<in> E \<longrightarrow> (p', c) \<in> E \<longrightarrow> p = p')"

definition forest :: "(string \<times> string) list \<Rightarrow> bool" where
  "forest pairs \<longleftrightarrow> one_parent (set pairs) \<and> acyclic (set pairs)"

text \<open>
  The invariant of the traversal, for the pairs \<open>E\<close>, the roots \<open>R\<close>, the roots \<open>P\<close> whose
  traversal has started and the pairs \<open>X\<close> still ahead in the running inner loop:
  a depth that is set is one more than the parent's; a root has no depth or depth 0; what
  is queued has a depth or is a root; and the children of what has been dequeued all have
  a depth.
\<close>

definition inv_depth :: "(string \<times> string) set \<Rightarrow> string set \<Rightarrow> depth_dict \<Rightarrow> bool" where
  "inv_depth E R d \<longleftrightarrow>
     (\<forall>p c n. (p, c) \<in> E \<longrightarrow> depth_get d c = Some n \<longrightarrow>
        n = depth_get_or0 d p + 1 \<and> (depth_get d p \<noteq> None \<or> p \<in> R))"

definition inv_roots :: "string set \<Rightarrow> depth_dict \<Rightarrow> bool" where
  "inv_roots R d \<longleftrightarrow> (\<forall>r. r \<in> R \<longrightarrow> depth_get d r = None \<or> depth_get d r = Some 0)"

definition inv_queue :: "string set \<Rightarrow> depth_dict \<Rightarrow> string list \<Rightarrow> bool" where
  "inv_queue R d q \<longleftrightarrow> (\<forall>x. x \<in> set q \<longrightarrow> depth_get d x \<noteq> None \<or> x \<in> R)"

definition inv_done ::
  "(string \<times> string) set \<Rightarrow> string set \<Rightarrow> (string \<times> string) set \<Rightarrow> depth_dict \<Rightarrow> string list \<Rightarrow> bool" where
  "inv_done E P X d q \<longleftrightarrow>
     (\<forall>p c. (p, c) \<in> E \<longrightarrow> depth_get d p \<noteq> None \<or> p \<in> P \<longrightarrow>
        p \<in> set q \<or> depth_get d c \<noteq> None \<or> (p, c) \<in> X)"

definition bfs_inv ::
  "(string \<times> string) set \<Rightarrow> string set \<Rightarrow> string set \<Rightarrow> (string \<times> string) set \<Rightarrow>
   depth_dict \<Rightarrow> string list \<Rightarrow> bool" where
  "bfs_inv E R P X d q \<longleftrightarrow>
     inv_depth E R d \<and> inv_roots R d \<and> inv_queue R d q \<and> inv_done E P X d q"

text \<open>
  The invariant of the traversal over the employee table with identifiers \<open>I\<close> and
  roots \<open>R\<close>: only identifiers of the table are queued, a root has no depth or depth 0,
  and every identifier of the table keeps its key.
\<close>

definition emp_inv :: "string set \<Rightarrow> string set \<Rightarrow> depth_dict \<Rightarrow> string list \<Rightarrow> bool" where
  "emp_inv I R d q \<longleftrightarrow>
     (\<forall>x. x \<in> set q \<longrightarrow> x \<in> I) \<and> inv_roots R d \<and> (\<forall>x. x \<in> I \<longrightarrow> d x \<noteq> None)"

subsection \<open>Example inputs\<close>

text \<open>
  A roster of four: A at the top, B and C reporting to A, D reporting to B. The table has
  no edge sheet, so the \<open>ManagerID\<close> column is the reporting source.
\<close>

definition fresh_session :: session_state where
  "fresh_session =
     \<lparr>prefilled_from_principles = False, session_min_span = None,
      session_max_span = None, session_max_layers = None\<rparr>"

definition roster_raw :: "raw_employee employees_table" where
  "roster_raw =
     \<lparr>employee_rows =
        [\<lparr>raw_EmployeeID = Str ''A'', raw_FullName = Some ''Ann'',
          raw_JobRole = Some ''CEO'', raw_ManagerID = NaN\<rparr>,
         \<lparr>raw_EmployeeID = Str ''B'', raw_FullName = Some ''Bob'',
          raw_JobRole = Some ''Lead'', raw_ManagerID = Str ''A''\<rparr>,
         \<lparr>raw_EmployeeID = Str ''C'', raw_FullName = Some ''Cy'',
          raw_JobRole = Some ''Lead'', raw_ManagerID = Str ''A ''\<rparr>,
         \<lparr>raw_EmployeeID = Str ''D'', raw_FullName = Some ''Di'',
          raw_JobRole = Some ''Analyst'', raw_ManagerID = Str ''B''\<rparr>],
      has_FullName = True, has_JobRole = True, has_ManagerID = True\<rparr>"

definition roster :: "employee employees_table" where
  "roster =
     \<lparr>employee_rows =
        [\<lparr>EmployeeID = ''A'', FullName = ''Ann'', JobRole = ''CEO'', ManagerID = ''nan''\<rparr>,
         \<lparr>EmployeeID = ''B'', FullName = ''Bob'', JobRole = ''Lead'', ManagerID = ''A''\<rparr>,
         \<lparr>EmployeeID = ''C'', FullName = ''Cy'', JobRole = ''Lead'', ManagerID = ''A''\<rparr>,
         \<lparr>EmployeeID = ''D'', FullName = ''Di'', JobRole = ''Analyst'', ManagerID = ''B''\<rparr>],
      has_FullName = True, has_JobRole = True, has_ManagerID = True\<rparr>"

definition roster_sheets :: sheets where
  "roster_sheets =
     \<lparr>employees_sheet = Some roster_raw, orgedges_sheet = None, principles_sheet = None\<rparr>"

definition row_A :: emp_row where
  "row_A = \<lparr>EmployeeID = ''A'', FullName = ''Ann'', JobRole = ''CEO'', ManagerID = ''nan'',
            DirectReports = 2, IsManager = True, Depth = 0\<rparr>"

definition row_B :: emp_row where
  "row_B = \<lparr>EmployeeID = ''B'', FullName = ''Bob'', JobRole = ''Lead'', ManagerID = ''A'',
            DirectReports = 1, IsManager = True, Depth = 1\<rparr>"

definition row_C :: emp_row where
  "row_C = \<lparr>EmployeeID = ''C'', FullName = ''Cy'', JobRole = ''Lead'', ManagerID = ''A'',
            DirectReports = 0, IsManager = False, Depth = 1\<rparr>"

definition row_D :: emp_row where
  "row_D = \<lparr>EmployeeID = ''D'', FullName = ''Di'', JobRole = ''Analyst'', ManagerID = ''B'',
            DirectReports = 0, IsManager = False, Depth = 2\<rparr>"

definition roster_emp :: "emp_row list" where
  "roster_emp = [row_A, row_B, row_C, row_D]"

text \<open>
  A workbook with all three sheets: five employees without a \<open>ManagerID\<close> column, the
  reporting lines in the edge sheet, and two principles.
\<close>

definition org_raw :: "raw_employee employees_table" where
  "org_raw =
     \<lparr>employee_rows =
        [\<lparr>raw_EmployeeID = Str ''A'', raw_FullName = Some ''Ann'',
          raw_JobRole = Some ''CEO'', raw_ManagerID = NaN\<rparr>,
         \<lparr>raw_EmployeeID = Str ''B'', raw_FullName = Some ''Bob'',
          raw_JobRole = Some ''Lead'', raw_ManagerID = NaN\<rparr>,
         \<lparr>raw_EmployeeID = Str ''C'', raw_FullName = Some ''Cy'',
          raw_JobRole = Some ''Lead'', raw_ManagerID = NaN\<rparr>,
         \<lparr>raw_EmployeeID = Str ''D'', raw_FullName = Some ''Di'',
          raw_JobRole = Some ''Analyst'', raw_ManagerID = NaN\<rparr>,
         \<lparr>raw_EmployeeID = Str ''E'', raw_FullName = Some ''Ed'',
          raw_JobRole = Some ''Analyst'', raw_ManagerID = NaN\<rparr>],
      has_FullName = True, has_JobRole = True, has_ManagerID = False\<rparr>"

definition org_edges_raw :: "raw_edge list" where
  "org_edges_raw =
     [\<lparr>raw_edge_EmployeeID = Str ''B'', raw_edge_ManagerID = Str ''A''\<rparr>,
      \<lparr>raw_edge_EmployeeID = Str ''C'', raw_edge_ManagerID = Str ''A''\<rparr>,
      \<lparr>raw_edge_EmployeeID = Str ''D'', raw_edge_ManagerID = Str ''B''\<rparr>,
      \<lparr>raw_edge_EmployeeID = Str ''E'', raw_edge_ManagerID = Str ''A''\<rparr>]"


definition org_principles_raw :: "raw_principle list" where
  "org_principles_raw =
     [\<lparr>raw_Name = Some ''Span of Control'', raw_TargetRule = Some ''3-8 direct reports''\<rparr>,
      \<lparr>raw_Name = Some ''Layers'', raw_TargetRule = Some ''At most 1 layers below the head''\<rparr>]"

definition org_sheets :: sheets where
  "org_sheets =
     \<lparr>employees_sheet = Some org_raw, orgedges_sheet = Some org_edges_raw,
      principles_sheet = Some org_principles_raw\<rparr>"

definition org_employees :: "employee employees_table" where
  "org_employees = standardize_employees org_raw"

definition org_edges :: "edge list" where
  "org_edges = standardize_edges org_edges_raw"

definition tight_targets :: targets where
  "tight_targets = \<lparr>min_span = 2, max_span = 2, max_layers_target = 1\<rparr>"

text \<open>An employee sheet that has its columns and no row.\<close>

definition empty_roster_sheets :: sheets where
  "empty_roster_sheets =
     \<lparr>employees_sheet =
        Some \<lparr>employee_rows = [], has_FullName = True, has_JobRole = True,
              has_ManagerID = True\<rparr>,
      orgedges_sheet = None, principles_sheet = None\<rparr>"

text \<open>
  An employee sheet without edges in which the identifier cell of the first row is missing
  and the second employee has no manager.
\<close>

definition blank_id_sheets :: sheets where
  "blank_id_sheets =
     \<lparr>employees_sheet =
        Some \<lparr>employee_rows =
                [\<lparr>raw_EmployeeID = NaN, raw_FullName = Some ''Temp'',
                  raw_JobRole = Some ''Contractor'', raw_ManagerID = Str ''X99''\<rparr>,
                 \<lparr>raw_EmployeeID = Str ''B'', raw_FullName = Some ''Bob'',
                  raw_JobRole = Some ''Lead'', raw_ManagerID = NaN\<rparr>],
              has_FullName = True, has_JobRole = True, has_ManagerID = True\<rparr>,
      orgedges_sheet = None, principles_sheet = None\<rparr>"

text \<open>
  An employee sheet without edges whose identifiers are numbers: employee 1 at the top,
  employees 2 and 3 reporting to 1. The \<open>ManagerID\<close> column has a gap, the
  \<open>EmployeeID\<close> column has none.
\<close>

definition numbered_sheets :: sheets where
  "numbered_sheets =
     \<lparr>employees_sheet =
        Some \<lparr>employee_rows =
                [\<lparr>raw_EmployeeID = Number 1, raw_FullName = Some ''Ann'',
                  raw_JobRole = Some ''CEO'', raw_ManagerID = NaN\<rparr>,
                 \<lparr>raw_EmployeeID = Number 2, raw_FullName = Some ''Bob'',
                  raw_JobRole = Some ''Lead'', raw_ManagerID = Number 1\<rparr>,
                 \<lparr>raw_EmployeeID = Number 3, raw_FullName = Some ''Cy'',
                  raw_JobRole = Some ''Lead'', raw_ManagerID = Number 1\<rparr>],
              has_FullName = True, has_JobRole = True, has_ManagerID = True\<rparr>,
      orgedges_sheet = None, principles_sheet = None\<rparr>"

section \<open>Properties\<close>

subsection \<open>What \<open>compute_metrics\<close> returns\<close>

lemma compute_metrics_InrD:
  assumes "compute_metrics sh st = Inr ((emp, employees, edges), st')"
  obtains raw where "employees_sheet sh = Some raw"
    and "employees = standardize_employees raw"
    and "edges = map_option standardize_edges (orgedges_sheet sh)"
    and "edges \<noteq> None \<or> has_ManagerID employees"
    and "emp = map (emp_of (mgr_counts employees edges) (depth_of employees edges))
                 (employee_rows employees)"
    and "st' = prefill (map_option (map standardize_principle) (principles_sheet sh)) st"
  using assms
  by (auto simp: compute_metrics_def Let_def split: option.splits if_splits)

lemma compute_metrics_roster:
  "compute_metrics roster_sheets fresh_session = Inr ((roster_emp, roster, None), fresh_session)"
  by code_simp

subsection \<open>Direct reports\<close>

lemma map_of_count_add:
  "map_of (count_add k kvs) k' =
     (if k' = k then Some (case map_of kvs k of None \<Rightarrow> 1 | Some n \<Rightarrow> Suc n) else map_of kvs k')"
  by (induction kvs) auto

lemma map_of_fold_count_add:
  "map_of (fold count_add ks acc) k =
     (case map_of acc k of
        None \<Rightarrow> if k \<in> set ks then Some (length (filter (\<lambda>x. x = k) ks)) else None
      | Some n \<Rightarrow> Some (n + length (filter (\<lambda>x. x = k) ks)))"
proof (induction ks arbitrary: acc)
  case Nil
  show ?case by (simp split: option.splits)
next
  case (Cons x ks)
  show ?case
    by (simp add: Cons.IH map_of_count_add split: option.splits)
qed

lemma keys_count_add: "set (map fst (count_add k kvs)) = insert k (set (map fst kvs))"
proof (induction kvs)
  case Nil
  show ?case by simp
next
  case (Cons kv kvs)
  obtain k' n where kv: "kv = (k', n)" by (cases kv)
  show ?case
  proof (cases "k = k'")
    case True
    then show ?thesis by (simp add: kv)
  next
    case False
    have "set (map fst (count_add k (kv # kvs))) = insert k' (set (map fst (count_add k kvs)))"
      using False by (simp add: kv)
    also have "\<dots> = insert k (set (map fst (kv # kvs)))"
      unfolding Cons.IH by (auto simp: kv)
    finally show ?thesis .
  qed
qed

lemma distinct_count_add:
  "distinct (map fst kvs) \<Longrightarrow> distinct (map fst (count_add k kvs))"
proof (induction kvs)
  case Nil
  show ?case by simp
next
  case (Cons kv kvs)
  obtain k' n where kv: "kv = (k', n)" by (cases kv)
  from Cons.prems have fresh: "k' \<notin> set (map fst kvs)" and dist: "distinct (map fst kvs)"
    by (simp_all add: kv)
  show ?case
  proof (cases "k = k'")
    case True
    with fresh dist show ?thesis by (simp add: kv)
  next
    case False
    with fresh have "k' \<notin> set (map fst (count_add k kvs))"
      unfolding keys_count_add by simp
    with False Cons.IH [OF dist] show ?thesis by (simp add: kv)
  qed
qed

lemma distinct_fold_count_add:
  "distinct (map fst acc) \<Longrightarrow> distinct (map fst (fold count_add ks acc))"
  by (induction ks arbitrary: acc) (simp_all add: distinct_count_add)

lemma distinct_map_sort_key: "distinct (map f (sort_key k xs)) = distinct (map f xs)"
  by (simp add: distinct_map)

lemma distinct_groupby_count: "distinct (map fst (groupby_count ks))"
  by (simp add: groupby_count_def distinct_map_sort_key distinct_fold_count_add)

lemma sorted_groupby_count: "sorted (map fst (groupby_count ks))"
  by (simp add: groupby_count_def)

lemma map_of_groupby_count:
  "map_of (groupby_count ks) k =
     (if k \<in> set ks then Some (length (filter (\<lambda>x. x = k) ks)) else None)"
proof -
  have "distinct (map fst (fold count_add ks []))"
    by (simp add: distinct_fold_count_add)
  moreover have "set (groupby_count ks) = set (fold count_add ks [])"
    by (simp add: groupby_count_def)
  ultimately have "map_of (groupby_count ks) = map_of (fold count_add ks [])"
    using distinct_groupby_count [of ks] by (simp add: map_of_inject_set)
  then show ?thesis by (simp add: map_of_fold_count_add)
qed

lemma groupby_count_mem:
  "(k, n) \<in> set (groupby_count ks) \<longleftrightarrow> k \<in> set ks \<and> n = length (filter (\<lambda>x. x = k) ks)"
proof -
  have "(k, n) \<in> set (groupby_count ks) \<longleftrightarrow> map_of (groupby_count ks) k = Some n"
    using distinct_groupby_count [of ks] by simp
  then show ?thesis by (auto simp: map_of_groupby_count)
qed

lemma direct_reports_groupby_count:
  "direct_reports (groupby_count ks) eid = length (filter (\<lambda>m. m = eid) ks)"
proof (cases "eid \<in> set ks")
  case True
  then show ?thesis by (simp add: direct_reports_def map_of_groupby_count)
next
  case False
  then have "filter (\<lambda>m. m = eid) ks = []" by (auto simp: filter_empty_conv)
  with False show ?thesis by (simp add: direct_reports_def map_of_groupby_count)
qed

text \<open>
  On the identifiers as the casts of lines 62-69 write them, the count is right: the
  direct-report count of a row is the number of rows of the edge table, when there is one,
  and of the employee table otherwise, whose \<open>ManagerID\<close> is written as the row's
  \<open>EmployeeID\<close> is.
\<close>

lemma direct_report_count:
  assumes "compute_metrics sh st = Inr ((emp, employees, edges), st')"
    and "r \<in> set emp"
  shows "DirectReports r =
           (case edges of
              Some es \<Rightarrow> length (filter (\<lambda>e. edge_ManagerID e = EmployeeID r) es)
            | None \<Rightarrow>
                length (filter (\<lambda>x. ManagerID x = EmployeeID r) (employee_rows employees)))"
proof -
  from assms(1) have
    emp: "emp = map (emp_of (mgr_counts employees edges) (depth_of employees edges))
                 (employee_rows employees)"
    by (rule compute_metrics_InrD)
  from assms(2) emp obtain e
    where r: "r = emp_of (mgr_counts employees edges) (depth_of employees edges) e"
    by auto
  have "DirectReports r =
      length (filter (\<lambda>m. m = EmployeeID r) (manager_column employees edges))"
    by (simp add: r emp_of_def mgr_counts_def direct_reports_groupby_count)
  then show ?thesis
    by (simp add: manager_column_def filter_map comp_def split: option.splits)
qed

text \<open>
  Claim C2, at \<open>numbered_sheets\<close>. The \<open>EmployeeID\<close> column holds numbers only and is
  written \<open>1\<close>, \<open>2\<close>, \<open>3\<close>; the \<open>ManagerID\<close> column has a gap, so pandas holds it as
  \<open>float64\<close> and line 64 writes the manager 1 as \<open>1.0\<close>. No \<open>ManagerID\<close> is written as
  an \<open>EmployeeID\<close> is, and employee 1, whom two rows name as manager, gets 0 direct
  reports.
\<close>

theorem numbered_manager_not_counted:
  "map_sum id
     (\<lambda>((emp, employees, edges), st').
        map (\<lambda>r. (EmployeeID r, ManagerID r, DirectReports r)) emp)
     (compute_metrics numbered_sheets fresh_session) =
   Inr [(''1'', ''nan'', 0), (''2'', ''1.0'', 0), (''3'', ''1.0'', 0)]"
  by code_simp

subsection \<open>Manager ratio\<close>

text \<open>
  Claim C9. Line 147 never raises: the manager ratio is the number of managers divided by
  the headcount when the headcount is positive, and 0 when the headcount is 0.
\<close>

theorem manager_ratio_value:
  "manager_ratio emp =
     Inr (if length emp > 0 then real (length (filter IsManager emp)) / real (length emp)
          else 0)"
  by (simp add: manager_ratio_def py_truediv_def manager_df_def Let_def)

subsection \<open>Flagged subsets\<close>

text \<open>
  Claim C10. The rows flagged below the minimum are the managers with fewer direct reports
  than the minimum span target, the rows flagged above the maximum the managers with more
  than the maximum span target; when the minimum target is at most the maximum target, no
  row is in both.
\<close>

theorem flagged_disjoint:
  assumes "min_span t \<le> max_span t"
  shows "set (below_min t emp) \<inter> set (above_max t emp) = {}
       \<and> set (below_min t emp) = {r \<in> set emp. IsManager r \<and> DirectReports r < min_span t}
       \<and> set (above_max t emp) = {r \<in> set emp. IsManager r \<and> DirectReports r > max_span t}"
  using assms by (auto simp: below_min_def above_max_def manager_df_def)

theorem flagged_disjoint_witness:
  "min_span default_targets \<le> max_span default_targets
   \<and> set (below_min default_targets roster_emp) \<inter> set (above_max default_targets roster_emp) = {}
   \<and> below_min default_targets roster_emp = [row_A, row_B]"
proof -
  have le: "min_span default_targets \<le> max_span default_targets"
    by (simp add: default_targets_def)
  have below: "below_min default_targets roster_emp = [row_A, row_B]"
    by (simp add: below_min_def manager_df_def default_targets_def roster_emp_def
        row_A_def row_B_def row_C_def row_D_def)
  note disj = flagged_disjoint [OF le, of roster_emp, THEN conjunct1]
  show ?thesis by (intro conjI le disj below)
qed

subsection \<open>Duplicate titles\<close>

lemma dup_groups_mem:
  "g \<in> set (map (\<lambda>((m, role), n). \<lparr>dup_ManagerID = m, dup_JobRole = role, Count = n\<rparr>)
              (groupby_count ks))
   \<longleftrightarrow> dup_key g \<in> set ks \<and> Count g = length (filter (\<lambda>k. k = dup_key g) ks)"
proof -
  have "g \<in> set (map (\<lambda>((m, role), n). \<lparr>dup_ManagerID = m, dup_JobRole = role, Count = n\<rparr>)
              (groupby_count ks))
    \<longleftrightarrow> (dup_key g, Count g) \<in> set (groupby_count ks)"
    by (cases g) (force simp: dup_key_def)
  then show ?thesis by (simp add: groupby_count_mem)
qed

lemma dup_groups_distinct:
  "distinct (map dup_key
     (map (\<lambda>((m, role), n). \<lparr>dup_ManagerID = m, dup_JobRole = role, Count = n\<rparr>)
        (groupby_count ks)))"
proof -
  have "map dup_key
     (map (\<lambda>((m, role), n). \<lparr>dup_ManagerID = m, dup_JobRole = role, Count = n\<rparr>)
        (groupby_count ks)) = map fst (groupby_count ks)"
    by (simp add: dup_key_def comp_def case_prod_beta)
  then show ?thesis
    using distinct_groupby_count [of ks] by (simp only:)
qed

lemma sorted_dup_titles: "sorted (map (\<lambda>g. - int (Count g)) (dup_titles employees edges))"
  by (simp add: dup_titles_def sort_count_desc_def split: option.splits)

text \<open>
  Claim C7. Without an edge table or without a \<open>JobRole\<close> column there are no duplicate
  titles, whatever the other data. With both, the duplicate titles are exactly the
  (\<open>ManagerID\<close>, \<open>JobRole\<close>) groups of the subordinates' rows that have at least two rows,
  each once and with its number of rows, listed by descending count. \<open>dup_titles\<close> is a total
  function: it raises nothing.
\<close>

theorem duplicate_titles:
  "(edges = None \<or> \<not> has_JobRole employees \<longrightarrow> dup_titles employees edges = [])
   \<and> (\<forall>es g. edges = Some es \<and> has_JobRole employees \<longrightarrow>
         (g \<in> set (dup_titles employees edges) \<longleftrightarrow>
            Count g \<ge> 2 \<and>
            Count g = length (filter (\<lambda>k. k = dup_key g)
                        (group_keys (child_roles es (employee_rows employees))))))
   \<and> distinct (map dup_key (dup_titles employees edges))
   \<and> sorted (map (\<lambda>g. - int (Count g)) (dup_titles employees edges))"
proof (intro conjI allI impI)
  assume "edges = None \<or> \<not> has_JobRole employees"
  then show "dup_titles employees edges = []"
    by (auto simp: dup_titles_def split: option.splits)
next
  fix es g
  assume a: "edges = Some es \<and> has_JobRole employees"
  let ?ks = "group_keys (child_roles es (employee_rows employees))"
  have "filter (\<lambda>k. k = dup_key g) ?ks = []" if "dup_key g \<notin> set ?ks"
    using that by (auto simp: filter_empty_conv)
  then have "dup_key g \<in> set ?ks"
    if "Count g = length (filter (\<lambda>k. k = dup_key g) ?ks)" "Count g \<ge> 2"
    using that by (cases "dup_key g \<in> set ?ks") auto
  with a show "g \<in> set (dup_titles employees edges) \<longleftrightarrow>
            Count g \<ge> 2 \<and> Count g = length (filter (\<lambda>k. k = dup_key g) ?ks)"
    by (auto simp: dup_titles_def sort_count_desc_def dup_groups_mem simp del: set_map)
next
  show "distinct (map dup_key (dup_titles employees edges))"
    by (auto simp: dup_titles_def sort_count_desc_def distinct_map_sort_key
        intro!: distinct_map_filter dup_groups_distinct split: option.splits simp del: map_map)
next
  show "sorted (map (\<lambda>g. - int (Count g)) (dup_titles employees edges))"
    by (rule sorted_dup_titles)
qed

theorem duplicate_titles_witness:
  "has_JobRole org_employees
   \<and> \<lparr>dup_ManagerID = ''A'', dup_JobRole = ''Lead'', Count = 2\<rparr>
        \<in> set (dup_titles org_employees (Some org_edges))
   \<and> group_keys (child_roles org_edges (employee_rows org_employees)) =
        [(''A'', ''Lead''), (''A'', ''Lead''), (''B'', ''Analyst''), (''A'', ''Analyst'')]
   \<and> dup_titles org_employees None = []"
proof -
  let ?g = "\<lparr>dup_ManagerID = ''A'', dup_JobRole = ''Lead'', Count = 2\<rparr>"
  have role: "has_JobRole org_employees"
    by code_simp
  have keys: "group_keys (child_roles org_edges (employee_rows org_employees)) =
        [(''A'', ''Lead''), (''A'', ''Lead''), (''B'', ''Analyst''), (''A'', ''Analyst'')]"
    by code_simp
  have "Count ?g \<ge> 2 \<and>
      Count ?g = length (filter (\<lambda>k. k = dup_key ?g)
                   (group_keys (child_roles org_edges (employee_rows org_employees))))"
    unfolding keys by (simp add: dup_key_def)
  with duplicate_titles [of "Some org_edges" org_employees] role
  have "?g \<in> set (dup_titles org_employees (Some org_edges))"
    by blast
  moreover from duplicate_titles [of None org_employees]
  have "dup_titles org_employees None = []"
    by blast
  ultimately show ?thesis using role keys by simp
qed

subsection \<open>Recommendations\<close>

lemma fold_append_each: "fold (\<lambda>x acc. acc @ [f x]) xs acc = acc @ map f xs"
  by (induction xs arbitrary: acc) auto

lemma recs_eq:
  "recs t has_name depth below_rows above_rows dups =
     (if depth > max_layers_target t then [Reduce_layers depth (max_layers_target t)] else [])
     @ map (\<lambda>r. Narrow_span (display_name has_name r) (DirectReports r) (min_span t)) below_rows
     @ map (\<lambda>r. Wide_span (display_name has_name r) (DirectReports r) (max_span t)) above_rows
     @ map (\<lambda>g. Duplicate_roles (dup_ManagerID g) (Count g) (dup_JobRole g)) (take 20 dups)"
  by (simp add: recs_def Let_def fold_append_each)

lemma sorted_rank_recs:
  "sorted (map rec_rank (recs t has_name depth below_rows above_rows dups))"
  by (auto simp: recs_eq sorted_append rec_rank_def o_def map_replicate_const)

lemma sorted_take: "sorted xs \<Longrightarrow> sorted (take n xs)"
  by (metis append_take_drop_id sorted_append)

lemma pipeline_InrD:
  assumes "pipeline sh t st = Inr (out, st')"
  obtains emp employees edges ratio depth where
    "compute_metrics sh st = Inr ((emp, employees, edges), st')"
    "manager_ratio emp = Inr ratio" "max_depth emp = Inr depth"
    "has_FullName employees"
    "out = \<lparr>out_emp = emp,
            n_people = length emp,
            n_managers = length (manager_df emp),
            out_manager_ratio = ratio,
            out_max_depth = depth,
            out_below_min = below_min t emp,
            out_above_max = above_max t emp,
            out_single_report = single_report emp,
            out_dup_titles = dup_titles employees edges,
            out_recs = recs t (has_FullName employees) depth (below_min t emp)
                         (above_max t emp) (dup_titles employees edges),
            shown_recs = take 50 (recs t (has_FullName employees) depth (below_min t emp)
                         (above_max t emp) (dup_titles employees edges))\<rparr>"
  using assms
  by (auto simp: pipeline_def show_flagged_def Let_def split: sum.splits prod.splits if_splits)

text \<open>
  Claim C4. Whenever the script reaches the recommendations, the list is: the layer entry
  if the maximum depth exceeds the layer target, then one entry per row flagged below the
  minimum span, then one per row flagged above the maximum span, then one per duplicate
  title among the first 20, which are listed by descending count. The list shown is its
  first 50 entries, so it keeps the same order of the four kinds.
\<close>

theorem recommendation_order:
  assumes "pipeline sh t st = Inr (out, st')"
    and "compute_metrics sh st = Inr ((emp, employees, edges), st'')"
  shows "out_recs out =
           (if out_max_depth out > max_layers_target t
            then [Reduce_layers (out_max_depth out) (max_layers_target t)] else [])
           @ map (\<lambda>r. Narrow_span (display_name (has_FullName employees) r) (DirectReports r)
                        (min_span t)) (out_below_min out)
           @ map (\<lambda>r. Wide_span (display_name (has_FullName employees) r) (DirectReports r)
                        (max_span t)) (out_above_max out)
           @ map (\<lambda>g. Duplicate_roles (dup_ManagerID g) (Count g) (dup_JobRole g))
               (take 20 (out_dup_titles out))
         \<and> sorted (map (\<lambda>g. - int (Count g)) (out_dup_titles out))
         \<and> sorted (map rec_rank (out_recs out))
         \<and> shown_recs out = take 50 (out_recs out)
         \<and> sorted (map rec_rank (shown_recs out))"
proof -
  from assms(1) obtain emp' employees' edges' ratio depth where
    cm: "compute_metrics sh st = Inr ((emp', employees', edges'), st')" and
    out: "out = \<lparr>out_emp = emp',
            n_people = length emp',
            n_managers = length (manager_df emp'),
            out_manager_ratio = ratio,
            out_max_depth = depth,
            out_below_min = below_min t emp',
            out_above_max = above_max t emp',
            out_single_report = single_report emp',
            out_dup_titles = dup_titles employees' edges',
            out_recs = recs t (has_FullName employees') depth (below_min t emp')
                         (above_max t emp') (dup_titles employees' edges'),
            shown_recs = take 50 (recs t (has_FullName employees') depth (below_min t emp')
                         (above_max t emp') (dup_titles employees' edges'))\<rparr>"
    by (rule pipeline_InrD)
  from cm assms(2) have same: "employees' = employees" by simp
  have "out_recs out =
           (if out_max_depth out > max_layers_target t
            then [Reduce_layers (out_max_depth out) (max_layers_target t)] else [])
           @ map (\<lambda>r. Narrow_span (display_name (has_FullName employees) r) (DirectReports r)
                        (min_span t)) (out_below_min out)
           @ map (\<lambda>r. Wide_span (display_name (has_FullName employees) r) (DirectReports r)
                        (max_span t)) (out_above_max out)
           @ map (\<lambda>g. Duplicate_roles (dup_ManagerID g) (Count g) (dup_JobRole g))
               (take 20 (out_dup_titles out))"
    unfolding out same by (simp add: recs_eq)
  moreover have "sorted (map (\<lambda>g. - int (Count g)) (out_dup_titles out))"
    unfolding out by (simp add: sorted_dup_titles)
  moreover have "sorted (map rec_rank (out_recs out))"
    unfolding out by (simp add: sorted_rank_recs)
  moreover have "shown_recs out = take 50 (out_recs out)"
    unfolding out by simp
  moreover have "sorted (map rec_rank (shown_recs out))"
    unfolding out by (simp add: sorted_rank_recs sorted_take take_map [symmetric])
  ultimately show ?thesis by blast
qed

lemma org_recs:
  "map_sum id (\<lambda>(out, st'). (out_recs out, shown_recs out))
     (pipeline org_sheets tight_targets fresh_session) =
   Inr ([Reduce_layers 2 1, Narrow_span ''Bob'' 1 2, Wide_span ''Ann'' 3 2,
         Duplicate_roles ''A'' 2 ''Lead''],
        [Reduce_layers 2 1, Narrow_span ''Bob'' 1 2, Wide_span ''Ann'' 3 2,
         Duplicate_roles ''A'' 2 ''Lead''])"
  by code_simp

theorem recommendation_order_witness:
  "\<exists>out st' emp employees edges.
     pipeline org_sheets tight_targets fresh_session = Inr (out, st')
     \<and> compute_metrics org_sheets fresh_session = Inr ((emp, employees, edges), st')
     \<and> out_recs out = [Reduce_layers 2 1, Narrow_span ''Bob'' 1 2, Wide_span ''Ann'' 3 2,
                        Duplicate_roles ''A'' 2 ''Lead'']
     \<and> shown_recs out = take 50 (out_recs out)
     \<and> sorted (map rec_rank (shown_recs out))"
proof -
  from org_recs obtain out st' where
    p: "pipeline org_sheets tight_targets fresh_session = Inr (out, st')" and
    r: "out_recs out = [Reduce_layers 2 1, Narrow_span ''Bob'' 1 2, Wide_span ''Ann'' 3 2,
                        Duplicate_roles ''A'' 2 ''Lead'']"
    by (cases "pipeline org_sheets tight_targets fresh_session") auto
  from p obtain emp employees edges where
    c: "compute_metrics org_sheets fresh_session = Inr ((emp, employees, edges), st')"
    by (rule pipeline_InrD)
  from recommendation_order [OF p c] p c r show ?thesis by blast
qed

subsection \<open>Seeding from the Principles table\<close>










lemma prefill_span_flag:
  "prefilled_from_principles (prefill_span ps st) = prefilled_from_principles st"
  by (simp add: prefill_span_def split: option.splits list.splits)

lemma prefill_layers_flag:
  "prefilled_from_principles (prefill_layers ps st) = prefilled_from_principles st"
  by (simp add: prefill_layers_def Let_def split: option.splits list.splits)



lemma compute_metrics_ignores_principles:
  "map_sum id fst (compute_metrics (sh\<lparr>principles_sheet := p\<rparr>) st) =
   map_sum id fst (compute_metrics sh st')"
  by (cases "employees_sheet sh") (auto simp: compute_metrics_def Let_def)

text \<open>
  What the script shows does not depend on the Principles sheet or on the session state:
  the cached targets are written (lines 120, 121, 128) and read nowhere.
\<close>

lemma pipeline_ignores_principles:
  "map_sum id fst (pipeline (sh\<lparr>principles_sheet := p\<rparr>) t st) =
   map_sum id fst (pipeline sh t st')"
proof -
  from compute_metrics_ignores_principles [where sh = sh and p = p and st = st and st' = st']
  show ?thesis
    by (cases "compute_metrics (sh\<lparr>principles_sheet := p\<rparr>) st";
        cases "compute_metrics sh st'")
      (auto simp: pipeline_def Let_def split: sum.splits prod.splits)
qed

text \<open>
  Claim C5, at a workbook whose Principles sheet parses to a span of 3 to 8 and to 1 layer,
  with the widgets at their defaults 4, 12 and 6. The three values are cached in the session
  state, and the flags and recommendations still use 4, 12 and 6: Ann, with 3 direct
  reports, is flagged below the minimum, and a maximum depth of 2 raises no layer entry.
\<close>

theorem principles_targets_not_in_force:
  "map_sum id
     (\<lambda>(out, st'). ((session_min_span st', session_max_span st', session_max_layers st'),
                    map EmployeeID (out_below_min out), out_max_depth out, out_recs out))
     (pipeline org_sheets default_targets fresh_session) =
   Inr ((Some 3, Some 8, Some 1), [''A'', ''B''], 2,
        [Narrow_span ''Ann'' 3 4, Narrow_span ''Bob'' 1 4, Duplicate_roles ''A'' 2 ''Lead''])"
  by code_simp




subsection \<open>Halting\<close>

lemma compute_metrics_halts_iff:
  "(\<exists>h. compute_metrics sh st = Inl h) \<longleftrightarrow>
     employees_sheet sh = None \<or>
     (orgedges_sheet sh = None \<and> (\<exists>t. employees_sheet sh = Some t \<and> \<not> has_ManagerID t))"
  by (auto simp: compute_metrics_def Let_def standardize_employees_def split: option.splits)

lemma compute_metrics_halt_is_message:
  "compute_metrics sh st = Inl h \<Longrightarrow> \<exists>msg. h = St_error_stop msg"
  by (auto simp: compute_metrics_def Let_def split: option.splits if_splits)

text \<open>
  Claim C8, at an employee sheet that is present, has a \<open>ManagerID\<close> column and has no
  row: \<open>compute_metrics\<close> returns, the manager ratio is 0, and line 153 ends the run with a
  \<open>ValueError\<close>.
\<close>

theorem empty_roster_halts:
  "map_sum id fst (compute_metrics empty_roster_sheets fresh_session) =
     Inr ([], \<lparr>employee_rows = [], has_FullName = True, has_JobRole = True,
               has_ManagerID = True\<rparr>, None)
   \<and> manager_ratio [] = Inr 0
   \<and> pipeline empty_roster_sheets default_targets fresh_session =
       Inl (ValueError ''cannot convert float NaN to integer'')"
  by code_simp

subsection \<open>Roots, adjacency and the depth dictionary\<close>

lemma set_fold_set_add: "set (fold set_add xs acc) = set acc \<union> set xs"
  by (induction xs arbitrary: acc) (auto simp: set_add_def)

lemma set_unique: "set (unique xs) = set xs"
  by (simp add: unique_def set_fold_set_add)

lemma distinct_fold_set_add: "distinct acc \<Longrightarrow> distinct (fold set_add xs acc)"
  by (induction xs arbitrary: acc) (auto simp: set_add_def)

lemma distinct_unique: "distinct (unique xs)"
  by (simp add: unique_def distinct_fold_set_add)

lemma set_edge_roots: "set (edge_roots pairs) = fst ` set pairs - snd ` set pairs"
  by (auto simp: edge_roots_def set_unique)

lemma set_employee_roots:
  "set (employee_roots rows) =
     {EmployeeID r | r. r \<in> set rows \<and> ManagerID r \<notin> EmployeeID ` set rows}"
  by (auto simp: employee_roots_def set_unique)

lemma parent_of_get_Nil: "parent_of_get [] k = []"
  by (simp add: parent_of_get_def)

lemma parent_of_get_Cons:
  "parent_of_get ((k', cs) # po) k = (if k = k' then cs else parent_of_get po k)"
  by (simp add: parent_of_get_def)

lemma parent_of_get_add:
  "parent_of_get (parent_of_add m e po) k =
     (if k = m then set_add e (parent_of_get po m) else parent_of_get po k)"
proof (induction m e po rule: parent_of_add.induct)
  case (1 m e)
  show ?case by (simp add: parent_of_get_Nil parent_of_get_Cons set_add_def)
next
  case (2 m e k' cs po)
  show ?case
  proof (cases "k' = m")
    case True
    then show ?thesis by (simp add: parent_of_get_Cons)
  next
    case False
    with 2 show ?thesis by (auto simp: parent_of_get_Cons)
  qed
qed

lemma set_parent_of_get_add:
  "set (parent_of_get (parent_of_add m e po) k) =
     (if k = m then insert e (set (parent_of_get po m)) else set (parent_of_get po k))"
  by (simp add: parent_of_get_add set_add_def insert_absorb)

lemma parent_of_get_fold:
  "set (parent_of_get (fold (\<lambda>(m, e). parent_of_add m e) pairs po) k) =
     set (parent_of_get po k) \<union> {e. (k, e) \<in> set pairs}"
proof (induction pairs arbitrary: po)
  case Nil
  show ?case by simp
next
  case (Cons pr pairs)
  obtain m e where pr: "pr = (m, e)" by (cases pr)
  have "set (parent_of_get (fold (\<lambda>(m, e). parent_of_add m e) (pr # pairs) po) k) =
      set (parent_of_get (parent_of_add m e po) k) \<union> {e. (k, e) \<in> set pairs}"
    by (simp add: pr Cons.IH)
  also have "\<dots> = set (parent_of_get po k) \<union> {e. (k, e) \<in> set (pr # pairs)}"
    unfolding set_parent_of_get_add by (auto simp: pr)
  finally show ?case .
qed

lemma set_parent_of_get_build:
  "set (parent_of_get (build_parent_of pairs) k) = {e. (k, e) \<in> set pairs}"
  by (simp add: build_parent_of_def parent_of_get_fold parent_of_get_Nil)

lemma depth_column_fill_none: "depth_column (fill_none d) k = depth_get_or0 d k"
  by (simp add: depth_column_def fill_none_def depth_get_or0_def depth_get_def
      split: option.splits)

lemma depth_get_init: "depth_get (init_depth ids) k = None"
  by (simp add: depth_get_def init_depth_def)

lemma depth_get_upd:
  "depth_get (d(k \<mapsto> Some n)) x = (if x = k then Some n else depth_get d x)"
  by (simp add: depth_get_def)

lemma depth_get_or0_upd:
  "depth_get_or0 (d(k \<mapsto> Some n)) x = (if x = k then n else depth_get_or0 d x)"
  by (simp add: depth_get_or0_def depth_get_upd)

subsection \<open>The traversal keeps its invariant\<close>

lemma assign_inv_depth:
  assumes sp: "one_parent E" and rc: "R \<inter> snd ` E = {}"
    and edge: "(cur, ch) \<in> E"
    and ok: "depth_get d cur \<noteq> None \<or> cur \<in> R"
    and un: "depth_get d ch = None"
    and inv: "inv_depth E R d"
  shows "inv_depth E R (d(ch \<mapsto> Some (depth_get_or0 d cur + 1)))"
  unfolding inv_depth_def
proof (intro allI impI)
  fix p c n
  let ?d = "d(ch \<mapsto> Some (depth_get_or0 d cur + 1))"
  assume pc: "(p, c) \<in> E" and n: "depth_get ?d c = Some n"
  from edge rc have chR: "ch \<notin> R" by force
  with ok un have ne: "cur \<noteq> ch" by auto
  show "n = depth_get_or0 ?d p + 1 \<and> (depth_get ?d p \<noteq> None \<or> p \<in> R)"
  proof (cases "c = ch")
    case True
    with pc edge sp have "p = cur" unfolding one_parent_def by blast
    with True n ne ok show ?thesis
      by (auto simp: depth_get_upd depth_get_or0_upd)
  next
    case False
    with n have "depth_get d c = Some n" by (simp add: depth_get_upd)
    with inv pc have 1: "n = depth_get_or0 d p + 1" and 2: "depth_get d p \<noteq> None \<or> p \<in> R"
      unfolding inv_depth_def by blast+
    from 2 un chR have "p \<noteq> ch" by auto
    with 1 2 show ?thesis by (simp add: depth_get_upd depth_get_or0_upd)
  qed
qed

lemma assign_inv_roots:
  assumes rc: "R \<inter> snd ` E = {}" and edge: "(cur, ch) \<in> E" and inv: "inv_roots R d"
  shows "inv_roots R (d(ch \<mapsto> Some n))"
proof -
  from edge rc have "ch \<notin> R" by force
  with inv show ?thesis
    unfolding inv_roots_def by (auto simp: depth_get_upd)
qed

lemma assign_inv_queue:
  assumes "inv_queue R d q"
  shows "inv_queue R (d(ch \<mapsto> Some n)) (q @ [ch])"
  using assms unfolding inv_queue_def by (auto simp: depth_get_upd)

lemma assign_inv_done:
  assumes "inv_done E P (insert (cur, ch) X) d q"
  shows "inv_done E P X (d(ch \<mapsto> Some n)) (q @ [ch])"
  unfolding inv_done_def
proof (intro allI impI)
  fix p c
  let ?d = "d(ch \<mapsto> Some n)"
  assume pc: "(p, c) \<in> E" and p: "depth_get ?d p \<noteq> None \<or> p \<in> P"
  show "p \<in> set (q @ [ch]) \<or> depth_get ?d c \<noteq> None \<or> (p, c) \<in> X"
  proof (cases "p = ch \<or> c = ch")
    case True
    then show ?thesis by (auto simp: depth_get_upd)
  next
    case False
    with p have "depth_get d p \<noteq> None \<or> p \<in> P" by (simp add: depth_get_upd)
    with assms pc have "p \<in> set q \<or> depth_get d c \<noteq> None \<or> (p, c) \<in> insert (cur, ch) X"
      unfolding inv_done_def by blast
    with False show ?thesis by (auto simp: depth_get_upd)
  qed
qed

lemma skip_inv_done:
  assumes "inv_done E P (insert (cur, ch) X) d q" and "depth_get d ch \<noteq> None"
  shows "inv_done E P X d q"
  using assms unfolding inv_done_def by blast

lemma visit_children_inv:
  assumes sp: "one_parent E" and rc: "R \<inter> snd ` E = {}"
    and "\<forall>c \<in> set chs. (cur, c) \<in> E"
    and "depth_get d cur \<noteq> None \<or> cur \<in> R"
    and "bfs_inv E R P ({cur} \<times> set chs) d q"
    and "visit_children cur chs d q = (d', q')"
  shows "bfs_inv E R P {} d' q'"
  using assms(3-)
proof (induction chs arbitrary: d q)
  case Nil
  then show ?case by simp
next
  case (Cons ch chs)
  from Cons.prems(1) have edge: "(cur, ch) \<in> E" and edges: "\<forall>c \<in> set chs. (cur, c) \<in> E"
    by simp_all
  from Cons.prems(3) have
    i1: "inv_depth E R d" and i2: "inv_roots R d" and i3: "inv_queue R d q" and
    i4: "inv_done E P (insert (cur, ch) ({cur} \<times> set chs)) d q"
    by (simp_all add: bfs_inv_def)
  show ?case
  proof (cases "depth_get d ch = None")
    case True
    define d1 where "d1 = d(ch \<mapsto> Some (depth_get_or0 d cur + 1))"
    from Cons.prems(4) True have v: "visit_children cur chs d1 (q @ [ch]) = (d', q')"
      by (simp add: d1_def)
    from edge rc have "ch \<notin> R" by force
    with Cons.prems(2) True have "cur \<noteq> ch" by auto
    with Cons.prems(2) have ok: "depth_get d1 cur \<noteq> None \<or> cur \<in> R"
      by (simp add: d1_def depth_get_upd)
    have "bfs_inv E R P ({cur} \<times> set chs) d1 (q @ [ch])"
      unfolding bfs_inv_def d1_def
      using assign_inv_depth [OF sp rc edge Cons.prems(2) True i1]
        assign_inv_roots [OF rc edge i2] assign_inv_queue [OF i3] assign_inv_done [OF i4]
      by blast
    from Cons.IH [OF edges ok this v] show ?thesis .
  next
    case False
    with Cons.prems(4) have v: "visit_children cur chs d q = (d', q')" by simp
    have "bfs_inv E R P ({cur} \<times> set chs) d q"
      unfolding bfs_inv_def using i1 i2 i3 skip_inv_done [OF i4 False] by blast
    from Cons.IH [OF edges Cons.prems(2) this v] show ?thesis .
  qed
qed

lemma bfs_inv_bfs:
  assumes sp: "one_parent E" and rc: "R \<inter> snd ` E = {}"
    and "\<forall>p. set (parent_of_get po p) = {c. (p, c) \<in> E}"
    and "bfs_inv E R P {} d q"
  shows "bfs_inv E R P {} (bfs po d q) []"
  using assms(3,4)
proof (induction po d q rule: bfs.induct)
  case (1 po d)
  then show ?case by simp
next
  case (2 po d cur q)
  note ch = "2.prems"(1)
  obtain d' q' where v: "visit_children cur (parent_of_get po cur) d q = (d', q')"
    by (cases "visit_children cur (parent_of_get po cur) d q")
  from "2.prems"(2) have
    i1: "inv_depth E R d" and i2: "inv_roots R d" and i3: "inv_queue R d (cur # q)" and
    i4: "inv_done E P {} d (cur # q)"
    by (simp_all add: bfs_inv_def)
  from i3 have ok: "depth_get d cur \<noteq> None \<or> cur \<in> R" and i3': "inv_queue R d q"
    by (simp_all add: inv_queue_def)
  have i4': "inv_done E P ({cur} \<times> set (parent_of_get po cur)) d q"
    unfolding inv_done_def
  proof (intro allI impI)
    fix p c
    assume pc: "(p, c) \<in> E" and p: "depth_get d p \<noteq> None \<or> p \<in> P"
    with i4 have "p \<in> set (cur # q) \<or> depth_get d c \<noteq> None"
      unfolding inv_done_def by blast
    moreover have "c \<in> set (parent_of_get po cur)" if "p = cur"
      using that pc ch by simp
    ultimately show "p \<in> set q \<or> depth_get d c \<noteq> None
        \<or> (p, c) \<in> {cur} \<times> set (parent_of_get po cur)"
      by auto
  qed
  have edges: "\<forall>c \<in> set (parent_of_get po cur). (cur, c) \<in> E"
    using ch by simp
  have "bfs_inv E R P ({cur} \<times> set (parent_of_get po cur)) d q"
    unfolding bfs_inv_def using i1 i2 i3' i4' by blast
  from visit_children_inv [OF sp rc edges ok this v]
  have "bfs_inv E R P {} d' q'" .
  from "2.IH" [OF v [symmetric] ch this] show ?case
    by (simp add: v)
qed

lemma root_start_inv:
  assumes rc: "R \<inter> snd ` E = {}" and r: "r \<in> R" and inv: "bfs_inv E R P {} d []"
  shows "bfs_inv E R (insert r P) {} (if d r = Some None then d(r \<mapsto> Some 0) else d) [r]"
proof -
  let ?d = "if d r = Some None then d(r \<mapsto> Some 0) else d"
  from inv have
    i1: "inv_depth E R d" and i2: "inv_roots R d" and i4: "inv_done E P {} d []"
    by (simp_all add: bfs_inv_def)
  from i2 r have dr: "depth_get d r = None \<or> depth_get d r = Some 0"
    unfolding inv_roots_def by blast
  have get: "depth_get ?d x = (if x = r \<and> d r = Some None then Some 0 else depth_get d x)" for x
    by (simp add: depth_get_upd)
  have get0: "depth_get_or0 ?d x = depth_get_or0 d x" for x
    using dr by (auto simp: depth_get_or0_def depth_get_upd)
  have keep: "depth_get d x \<noteq> None \<Longrightarrow> depth_get ?d x \<noteq> None" for x
    by (simp add: get)
  have notchild: "(p, r) \<notin> E" for p
    using rc r by force
  have "inv_depth E R ?d"
    unfolding inv_depth_def
  proof (intro allI impI)
    fix p c n
    assume pc: "(p, c) \<in> E" and n: "depth_get ?d c = Some n"
    from pc notchild have "c \<noteq> r" by blast
    with n have "depth_get d c = Some n" by (simp add: get)
    with i1 pc have "n = depth_get_or0 d p + 1" "depth_get d p \<noteq> None \<or> p \<in> R"
      unfolding inv_depth_def by blast+
    then show "n = depth_get_or0 ?d p + 1 \<and> (depth_get ?d p \<noteq> None \<or> p \<in> R)"
      using keep [of p] by (auto simp only: get0)
  qed
  moreover have "inv_roots R ?d"
    using i2 unfolding inv_roots_def by (auto simp: get)
  moreover have "inv_queue R ?d [r]"
    using r unfolding inv_queue_def by simp
  moreover have "inv_done E (insert r P) {} ?d [r]"
    unfolding inv_done_def
  proof (intro allI impI)
    fix p c
    assume pc: "(p, c) \<in> E" and p: "depth_get ?d p \<noteq> None \<or> p \<in> insert r P"
    show "p \<in> set [r] \<or> depth_get ?d c \<noteq> None \<or> (p, c) \<in> {}"
    proof (cases "p = r")
      case True
      then show ?thesis by simp
    next
      case False
      with p have "depth_get d p \<noteq> None \<or> p \<in> P" by (simp add: get)
      with i4 pc have "depth_get d c \<noteq> None" unfolding inv_done_def by auto
      then show ?thesis using keep [of c] by blast
    qed
  qed
  ultimately show ?thesis unfolding bfs_inv_def by blast
qed

lemma inv_done_mono: "inv_done E P X d q \<Longrightarrow> P' \<subseteq> P \<Longrightarrow> inv_done E P' X d q"
  unfolding inv_done_def by blast

lemma roots_loop_inv:
  assumes sp: "one_parent E" and rc: "R \<inter> snd ` E = {}"
    and ch: "\<forall>p. set (parent_of_get po p) = {c. (p, c) \<in> E}"
    and "set rs \<subseteq> R"
    and "bfs_inv E R P {} d []"
  shows "bfs_inv E R (P \<union> set rs) {} (roots_loop po rs d) []"
  using assms(4-)
proof (induction rs arbitrary: d P)
  case Nil
  then show ?case by simp
next
  case (Cons r rs)
  from Cons.prems(1) have r: "r \<in> R" and rs: "set rs \<subseteq> R" by simp_all
  let ?d = "if d r = Some None then d(r \<mapsto> Some 0) else d"
  from root_start_inv [OF rc r Cons.prems(2)]
  have "bfs_inv E R (insert r P) {} ?d [r]" .
  from bfs_inv_bfs [OF sp rc ch this]
  have "bfs_inv E R (insert r P) {} (bfs po ?d [r]) []" .
  from Cons.IH [OF rs this] show ?case by simp
qed

lemma init_inv: "bfs_inv E R {} {} (init_depth ids) []"
  by (simp add: bfs_inv_def inv_depth_def inv_roots_def inv_queue_def inv_done_def
      depth_get_init)

lemma forest_all_reached:
  assumes fin: "finite E" and ac: "acyclic E"
    and R: "R = fst ` E - snd ` E"
    and inv: "inv_done E R {} d []"
  shows "x \<in> fst ` E \<union> snd ` E \<Longrightarrow> depth_get d x \<noteq> None \<or> x \<in> R"
proof -
  from fin ac have "wf E" by (rule finite_acyclic_wf)
  then show "x \<in> fst ` E \<union> snd ` E \<Longrightarrow> depth_get d x \<noteq> None \<or> x \<in> R"
  proof (induction x rule: wf_induct_rule)
    case (less x)
    show ?case
    proof (cases "x \<in> snd ` E")
      case True
      then obtain p where px: "(p, x) \<in> E" by force
      then have "p \<in> fst ` E \<union> snd ` E" by force
      with less.IH [OF px] have "depth_get d p \<noteq> None \<or> p \<in> R" by blast
      with inv px have "depth_get d x \<noteq> None" unfolding inv_done_def by auto
      then show ?thesis by blast
    next
      case False
      with less.prems R show ?thesis by blast
    qed
  qed
qed

lemma forest_edge_depths:
  fixes pairs :: "(string \<times> string) list" and ids :: "string list"
  assumes sp: "one_parent (set pairs)" and ac: "acyclic (set pairs)"
  defines "d \<equiv> roots_loop (build_parent_of pairs) (edge_roots pairs) (init_depth ids)"
  shows "(m, e) \<in> set pairs \<Longrightarrow> d e = Some (Some (depth_get_or0 d m + 1))"
    and "r \<in> set (edge_roots pairs) \<Longrightarrow> depth_get_or0 d r = 0"
proof -
  let ?E = "set pairs" and ?R = "set (edge_roots pairs)"
  have R: "?R = fst ` ?E - snd ` ?E" by (rule set_edge_roots)
  then have rc: "?R \<inter> snd ` ?E = {}" by blast
  have "bfs_inv ?E ?R ({} \<union> ?R) {} d []"
    unfolding d_def
    by (rule roots_loop_inv [OF sp rc _ subset_refl init_inv])
      (simp add: set_parent_of_get_build)
  then have i1: "inv_depth ?E ?R d" and i2: "inv_roots ?R d" and i4: "inv_done ?E ?R {} d []"
    by (simp_all add: bfs_inv_def)
  {
    assume me: "(m, e) \<in> ?E"
    then have "m \<in> fst ` ?E \<union> snd ` ?E" by force
    from forest_all_reached [OF _ ac R i4 this]
    have "depth_get d m \<noteq> None \<or> m \<in> ?R" by simp
    with i4 me have "depth_get d e \<noteq> None" unfolding inv_done_def by auto
    then obtain n where n: "depth_get d e = Some n" by blast
    with i1 me have "n = depth_get_or0 d m + 1" unfolding inv_depth_def by blast
    with n show "d e = Some (Some (depth_get_or0 d m + 1))"
      by (auto simp: depth_get_def split: option.splits)
  }
  {
    assume "r \<in> ?R"
    with i2 show "depth_get_or0 d r = 0"
      unfolding inv_roots_def depth_get_or0_def by (auto split: option.splits)
  }
qed

subsection \<open>Depth in a forest of edges\<close>

lemma emp_Depth:
  assumes "compute_metrics sh st = Inr ((emp, employees, edges), st')" and "r \<in> set emp"
  shows "Depth r = depth_column (depth_of employees edges) (EmployeeID r)"
proof -
  from assms(1) have
    "emp = map (emp_of (mgr_counts employees edges) (depth_of employees edges))
             (employee_rows employees)"
    by (rule compute_metrics_InrD)
  with assms(2) show ?thesis by (auto simp: emp_of_def)
qed

text \<open>
  Claim C1. When the edge table is a forest, the depth dictionary that the traversal leaves
  has depth 0 for every root (a root outside the employee table has no entry, which reads
  as 0), and for every edge the entry of the child is the depth of its parent plus one. In
  a forest every node of the edge table is reached from a root, so this covers every
  edge. The \<open>Depth\<close> column reads the dictionary: a row that is a root has depth 0, and
  a row one edge below another row has that row's depth plus one.
\<close>

theorem forest_depths:
  assumes cm: "compute_metrics sh st = Inr ((emp, employees, Some es), st')"
    and forest: "forest (edge_pairs es)"
  shows "(\<forall>r \<in> set (edge_roots (edge_pairs es)).
            depth_column (depth_of employees (Some es)) r = 0)
       \<and> (\<forall>(m, e) \<in> set (edge_pairs es).
            depth_of employees (Some es) e =
              Some (Some (depth_column (depth_of employees (Some es)) m + 1)))
       \<and> (\<forall>r \<in> set emp. EmployeeID r \<in> set (edge_roots (edge_pairs es)) \<longrightarrow> Depth r = 0)
       \<and> (\<forall>c \<in> set emp. \<forall>p \<in> set emp.
            (EmployeeID p, EmployeeID c) \<in> set (edge_pairs es) \<longrightarrow> Depth c = Depth p + 1)"
proof -
  let ?pairs = "edge_pairs es"
  let ?ids = "map EmployeeID (employee_rows employees)"
  let ?d = "roots_loop (build_parent_of ?pairs) (edge_roots ?pairs) (init_depth ?ids)"
  let ?D = "depth_of employees (Some es)"
  from forest have sp: "one_parent (set ?pairs)" and ac: "acyclic (set ?pairs)"
    by (simp_all add: forest_def)
  have D: "?D = fill_none ?d"
    by (simp add: depth_of_def assign_depths_def)
  have col: "depth_column ?D k = depth_get_or0 ?d k" for k
    by (simp add: D depth_column_fill_none)
  have roots: "depth_column ?D r = 0" if "r \<in> set (edge_roots ?pairs)" for r
    using forest_edge_depths(2) [OF sp ac that] by (simp add: col)
  have edges: "?D e = Some (Some (depth_column ?D m + 1))" if "(m, e) \<in> set ?pairs" for m e
  proof -
    from forest_edge_depths(1) [OF sp ac that]
    have "?d e = Some (Some (depth_get_or0 ?d m + 1))" .
    then show ?thesis by (simp add: col) (simp add: D fill_none_def)
  qed
  have row: "Depth r = depth_column ?D (EmployeeID r)" if "r \<in> set emp" for r
    using cm that by (rule emp_Depth)
  have "Depth c = Depth p + 1"
    if "c \<in> set emp" "p \<in> set emp" "(EmployeeID p, EmployeeID c) \<in> set ?pairs" for c p
    using edges [OF that(3)] row [OF that(1)] row [OF that(2)]
    by (simp add: depth_column_def)
  with roots edges row show ?thesis by (auto simp: case_prod_beta)
qed

lemma org_edge_pairs:
  "edge_pairs org_edges = [(''A'', ''B''), (''A'', ''C''), (''B'', ''D''), (''A'', ''E'')]"
  by code_simp

lemma forest_org: "forest (edge_pairs org_edges)"
proof -
  have "one_parent (set (edge_pairs org_edges))"
    unfolding org_edge_pairs one_parent_def by auto
  moreover have "acyclic (set (edge_pairs org_edges))"
    unfolding org_edge_pairs
    by (rule acyclicI_order [where f = "\<lambda>s. if s = ''A'' then 2 else if s = ''B'' then 1 else (0::nat)"])
      auto
  ultimately show ?thesis by (simp add: forest_def)
qed

lemma org_depths:
  "map_sum id (\<lambda>((emp, employees, edges), st'). (map (\<lambda>r. (EmployeeID r, Depth r)) emp, employees, edges))
     (compute_metrics org_sheets fresh_session) =
   Inr ([(''A'', 0), (''B'', 1), (''C'', 1), (''D'', 2), (''E'', 1)], org_employees, Some org_edges)"
  by code_simp

theorem forest_depths_witness:
  "\<exists>emp st'.
     compute_metrics org_sheets fresh_session = Inr ((emp, org_employees, Some org_edges), st')
     \<and> forest (edge_pairs org_edges)
     \<and> edge_roots (edge_pairs org_edges) = [''A'']
     \<and> map (\<lambda>r. (EmployeeID r, Depth r)) emp =
          [(''A'', 0), (''B'', 1), (''C'', 1), (''D'', 2), (''E'', 1)]
     \<and> depth_column (depth_of org_employees (Some org_edges)) ''A'' = 0
     \<and> depth_of org_employees (Some org_edges) ''D'' =
          Some (Some (depth_column (depth_of org_employees (Some org_edges)) ''B'' + 1))"
proof -
  from org_depths obtain emp st' where
    cm: "compute_metrics org_sheets fresh_session = Inr ((emp, org_employees, Some org_edges), st')"
    and dep: "map (\<lambda>r. (EmployeeID r, Depth r)) emp =
          [(''A'', 0), (''B'', 1), (''C'', 1), (''D'', 2), (''E'', 1)]"
    by (cases "compute_metrics org_sheets fresh_session") auto
  have roots: "edge_roots (edge_pairs org_edges) = [''A'']"
    by code_simp
  note fd = forest_depths [OF cm forest_org]
  from fd have a: "depth_column (depth_of org_employees (Some org_edges)) ''A'' = 0"
    by (simp add: roots)
  from fd have b: "depth_of org_employees (Some org_edges) ''D'' =
          Some (Some (depth_column (depth_of org_employees (Some org_edges)) ''B'' + 1))"
    by (simp add: org_edge_pairs)
  show ?thesis
    by (rule exI [of _ emp], rule exI [of _ st']) (intro conjI cm forest_org roots dep a b)
qed

subsection \<open>Roots of the employee table\<close>

lemma visit_children_keep:
  assumes "depth_get d x = Some n" and "visit_children cur chs d q = (d', q')"
  shows "depth_get d' x = Some n"
  using assms
proof (induction chs arbitrary: d q)
  case Nil
  then show ?case by simp
next
  case (Cons ch chs)
  show ?case
  proof (cases "depth_get d ch = None")
    case True
    with Cons.prems(1) have "x \<noteq> ch" by auto
    with Cons.prems(1)
    have "depth_get (d(ch \<mapsto> Some (depth_get_or0 d cur + 1))) x = Some n"
      by (simp add: depth_get_upd)
    moreover from Cons.prems(2) True
    have "visit_children cur chs (d(ch \<mapsto> Some (depth_get_or0 d cur + 1))) (q @ [ch]) = (d', q')"
      by simp
    ultimately show ?thesis by (rule Cons.IH)
  next
    case False
    with Cons.prems(2) have "visit_children cur chs d q = (d', q')" by simp
    with Cons.prems(1) show ?thesis by (rule Cons.IH)
  qed
qed

lemma bfs_keep: "depth_get d x = Some n \<Longrightarrow> depth_get (bfs po d q) x = Some n"
proof (induction po d q rule: bfs.induct)
  case (1 po d)
  then show ?case by simp
next
  case (2 po d cur q)
  obtain d' q' where v: "visit_children cur (parent_of_get po cur) d q = (d', q')"
    by (cases "visit_children cur (parent_of_get po cur) d q")
  from visit_children_keep [OF "2.prems" v] have "depth_get d' x = Some n" .
  from "2.IH" [OF v [symmetric] this] show ?case by (simp add: v)
qed

lemma roots_loop_keep:
  "depth_get d x = Some n \<Longrightarrow> depth_get (roots_loop po rs d) x = Some n"
proof (induction rs arbitrary: d)
  case Nil
  then show ?case by simp
next
  case (Cons r rs)
  let ?d = "if d r = Some None then d(r \<mapsto> Some 0) else d"
  from Cons.prems have "depth_get ?d x = Some n"
    by (auto simp: depth_get_def)
  then have "depth_get (bfs po ?d [r]) x = Some n" by (rule bfs_keep)
  then show ?case by (simp add: Cons.IH)
qed

lemma visit_children_emp_inv:
  assumes safe: "\<forall>c \<in> set chs. c \<in> I \<and> c \<notin> R"
    and "emp_inv I R d q"
    and "visit_children cur chs d q = (d', q')"
  shows "emp_inv I R d' q'"
  using assms
proof (induction chs arbitrary: d q)
  case Nil
  then show ?case by simp
next
  case (Cons ch chs)
  from Cons.prems(1) have ch: "ch \<in> I" "ch \<notin> R" and rest: "\<forall>c \<in> set chs. c \<in> I \<and> c \<notin> R"
    by simp_all
  show ?case
  proof (cases "depth_get d ch = None")
    case True
    let ?d = "d(ch \<mapsto> Some (depth_get_or0 d cur + 1))"
    from Cons.prems(2) ch have "emp_inv I R ?d (q @ [ch])"
      unfolding emp_inv_def inv_roots_def by (auto simp: depth_get_upd)
    moreover from Cons.prems(3) True have "visit_children cur chs ?d (q @ [ch]) = (d', q')"
      by simp
    ultimately show ?thesis by (rule Cons.IH [OF rest])
  next
    case False
    with Cons.prems(3) have "visit_children cur chs d q = (d', q')" by simp
    with Cons.prems(2) show ?thesis by (rule Cons.IH [OF rest])
  qed
qed

lemma bfs_emp_inv:
  assumes "\<forall>p c. p \<in> I \<longrightarrow> c \<in> set (parent_of_get po p) \<longrightarrow> c \<in> I \<and> c \<notin> R"
    and "emp_inv I R d q"
  shows "emp_inv I R (bfs po d q) []"
  using assms
proof (induction po d q rule: bfs.induct)
  case (1 po d)
  then show ?case by simp
next
  case (2 po d cur q)
  obtain d' q' where v: "visit_children cur (parent_of_get po cur) d q = (d', q')"
    by (cases "visit_children cur (parent_of_get po cur) d q")
  from "2.prems"(2) have cur: "cur \<in> I" and inv: "emp_inv I R d q"
    by (simp_all add: emp_inv_def)
  from "2.prems"(1) cur have "\<forall>c \<in> set (parent_of_get po cur). c \<in> I \<and> c \<notin> R"
    by blast
  from visit_children_emp_inv [OF this inv v] have "emp_inv I R d' q'" .
  from "2.IH" [OF v [symmetric] "2.prems"(1) this] show ?case by (simp add: v)
qed

lemma roots_loop_emp_inv:
  assumes safe: "\<forall>p c. p \<in> I \<longrightarrow> c \<in> set (parent_of_get po p) \<longrightarrow> c \<in> I \<and> c \<notin> R"
    and "set rs \<subseteq> R" and "R \<subseteq> I"
    and "emp_inv I R d []"
  shows "emp_inv I R (roots_loop po rs d) []
       \<and> (\<forall>r \<in> set rs. depth_get (roots_loop po rs d) r = Some 0)"
  using assms(2,4)
proof (induction rs arbitrary: d)
  case Nil
  then show ?case by simp
next
  case (Cons r rs)
  let ?d = "if d r = Some None then d(r \<mapsto> Some 0) else d"
  from Cons.prems(1) have r: "r \<in> R" and rs: "set rs \<subseteq> R" by simp_all
  from r assms(3) have rI: "r \<in> I" by blast
  from Cons.prems(2) rI obtain v where v: "d r = Some v"
    unfolding emp_inv_def by blast
  then have "depth_get d r = v" by (simp add: depth_get_def)
  moreover from Cons.prems(2) r have "depth_get d r = None \<or> depth_get d r = Some 0"
    unfolding emp_inv_def inv_roots_def by blast
  ultimately have dr: "d r = Some None \<or> d r = Some (Some 0)"
    using v by auto
  then have r0: "depth_get ?d r = Some 0"
    by (auto simp: depth_get_def)
  have "emp_inv I R ?d [r]"
    using Cons.prems(2) rI
    unfolding emp_inv_def inv_roots_def by (auto simp: depth_get_upd)
  from bfs_emp_inv [OF safe this] have inv1: "emp_inv I R (bfs po ?d [r]) []" .
  from r0 have "depth_get (bfs po ?d [r]) r = Some 0" by (rule bfs_keep)
  then have "depth_get (roots_loop po rs (bfs po ?d [r])) r = Some 0"
    by (rule roots_loop_keep)
  with Cons.IH [OF rs inv1] show ?case by simp
qed

lemma init_emp_inv: "emp_inv (set ids) R (init_depth ids) []"
  by (simp add: emp_inv_def inv_roots_def depth_get_init) (simp add: init_depth_def)

lemma employee_children_safe:
  assumes dist: "distinct (map EmployeeID rows)"
    and p: "p \<in> set (map EmployeeID rows)"
    and c: "c \<in> set (parent_of_get (build_parent_of (employee_pairs rows)) p)"
  shows "c \<in> set (map EmployeeID rows) \<and> c \<notin> set (employee_roots rows)"
proof -
  from c have "(p, c) \<in> set (employee_pairs rows)"
    by (simp add: set_parent_of_get_build)
  then obtain x where x: "x \<in> set rows" "ManagerID x = p" "EmployeeID x = c"
    by (auto simp: employee_pairs_def)
  have "c \<notin> set (employee_roots rows)"
  proof
    assume "c \<in> set (employee_roots rows)"
    then obtain y where y: "y \<in> set rows" "EmployeeID y = c"
      "ManagerID y \<notin> EmployeeID ` set rows"
      by (auto simp: set_employee_roots)
    from dist have "inj_on EmployeeID (set rows)" by (simp add: distinct_map)
    with x y have "x = y" by (auto dest: inj_onD)
    with x y p show False by auto
  qed
  with x show ?thesis by auto
qed

lemma employee_root_depth:
  assumes dist: "distinct (map EmployeeID (employee_rows employees))"
    and r: "r \<in> set (employee_rows employees)"
    and root: "ManagerID r \<notin> set (map EmployeeID (employee_rows employees))"
  shows "depth_of employees None (EmployeeID r) = Some (Some 0)"
proof -
  let ?rows = "employee_rows employees"
  let ?ids = "map EmployeeID ?rows"
  let ?po = "build_parent_of (employee_pairs ?rows)"
  let ?roots = "employee_roots ?rows"
  let ?d = "roots_loop ?po ?roots (init_depth ?ids)"
  have safe: "\<forall>p c. p \<in> set ?ids \<longrightarrow> c \<in> set (parent_of_get ?po p) \<longrightarrow>
      c \<in> set ?ids \<and> c \<notin> set ?roots"
    using employee_children_safe [OF dist] by blast
  have sub: "set ?roots \<subseteq> set ?ids"
    by (auto simp: set_employee_roots)
  from r root have "EmployeeID r \<in> set ?roots"
    by (auto simp: set_employee_roots)
  with roots_loop_emp_inv [OF safe subset_refl sub init_emp_inv]
  have "depth_get ?d (EmployeeID r) = Some 0" by blast
  then have "?d (EmployeeID r) = Some (Some 0)"
    by (auto simp: depth_get_def split: option.splits)
  then show ?thesis
    by (simp add: depth_of_def assign_depths_def fill_none_def Let_def)
qed

lemma unreached_depth:
  "depth_get (roots_loop po roots (init_depth ids)) k = None \<Longrightarrow>
     depth_column (assign_depths ids po roots) k = 0"
  by (simp add: assign_depths_def depth_column_fill_none depth_get_or0_def)

text \<open>
  Without an edge table and with unique identifiers, a row whose \<open>ManagerID\<close>, as text,
  is no \<open>EmployeeID\<close> of the table is a root and gets depth 0; and a row the traversal
  never reaches gets depth 0.
\<close>

lemma employee_root_Depth:
  assumes cm: "compute_metrics sh st = Inr ((emp, employees, None), st')"
    and dist: "distinct (map EmployeeID emp)"
    and r: "r \<in> set emp"
    and root: "ManagerID r \<notin> EmployeeID ` set emp"
  shows "Depth r = 0"
proof -
  from cm have emp:
    "emp = map (emp_of (mgr_counts employees None) (depth_of employees None))
             (employee_rows employees)"
    by (rule compute_metrics_InrD)
  then have ids: "map EmployeeID emp = map EmployeeID (employee_rows employees)"
    by (simp add: emp_of_def comp_def)
  from r emp obtain e where e: "e \<in> set (employee_rows employees)"
    and re: "r = emp_of (mgr_counts employees None) (depth_of employees None) e"
    by auto
  from re have same: "EmployeeID r = EmployeeID e" "ManagerID r = ManagerID e"
    by (simp_all add: emp_of_def)
  from root have "ManagerID e \<notin> set (map EmployeeID (employee_rows employees))"
    unfolding same [symmetric] ids [symmetric] by simp
  from employee_root_depth [OF _ e this] dist
  have "depth_of employees None (EmployeeID e) = Some (Some 0)"
    by (simp add: ids)
  then show ?thesis by (simp add: re emp_of_def depth_column_def)
qed

text \<open>
  Claim C3, at \<open>blank_id_sheets\<close>. The missing identifier and the missing manager both
  become the string \<open>nan\<close> (lines 62 and 64), so the \<open>dropna\<close> of line 92 keeps the second
  row and line 94 finds its manager among the identifiers: the employee without a manager
  is no root, and is given depth 1 below the row without an identifier.
\<close>

theorem null_manager_below_blank_id:
  "map_sum id
     (\<lambda>((emp, employees, edges), st'). map (\<lambda>r. (EmployeeID r, ManagerID r, Depth r)) emp)
     (compute_metrics blank_id_sheets fresh_session) =
   Inr [(''nan'', ''X99'', 0), (''B'', ''nan'', 1)]"
  by code_simp

end
